theory Spec2Isabelle
  imports Main "HOL-Library.Product_Lexorder"
begin

section \<open>Data model of the constraint-system builder\<close>

text \<open>
  The builder of the frontend package accumulates rank-1 constraints over linear
  expressions. The source file holds the gadget methods (\<open>Add\<close>, \<open>Sub\<close>, \<open>Mul\<close>,
  \<open>IsZero\<close>, \<open>ToBinary\<close>, \<open>Select\<close>, \<open>Constant\<close>, \<open>AssertIsBoolean\<close>) and the
  twisted-Edwards registry. The type declarations and the small helpers the methods call
  (\<open>coeffID\<close>, \<open>makeTerm\<close>, \<open>reduce\<close>, \<open>newInternalVariable\<close>, \<open>getOneVariable\<close>,
  \<open>completeDanglingVariable\<close>, \<open>newR1C\<close>, \<open>addAssertion\<close>) live in other files of the
  package; they are modelled from the specification and marked as such.
\<close>

text \<open>Modelled from the spec: the visibility of a wire (data model, "Wire"); the type
  declaration is missing.\<close>

datatype Visibility = Public | Secret | Internal | One

text \<open>Modelled from the spec: a wire is a visibility and a numeric ID unique within that
  visibility (the source builds it as \<open>Wire{constraintVis, variableID, nil}\<close>; the third
  component, the assigned value, is always \<open>nil\<close> in the builder and is left out).\<close>

datatype Wire = Wire (visibility: Visibility) (wire_id: nat)

text \<open>Modelled from the spec: a term is the packed triple (coefficient-ID, wire-ID,
  visibility); the source builds it with \<open>compiled.Pack(id, coeffID, visibility)\<close> and reads it
  with \<open>Unpack\<close>.\<close>

datatype Term = Pack (VariableID: nat) (CoeffID: nat) (Vis: Visibility)

type_synonym LinearExpression = "Term list"

text \<open>Modelled from the spec: a Variable is a linear expression, an optional underlying
  wire and the known-boolean flag. The source writes \<open>Variable{Wire{}, linExp, false}\<close>:
  the flag is a plain boolean stored in the handle; the empty wire is \<open>None\<close> here.\<close>

record Variable =
  wire :: "Wire option"
  linExp :: LinearExpression
  isBoolean :: bool

text \<open>Modelled from the spec: the solving hint of a constraint, "single-output" by default,
  "binary-decomposition" for \<open>ToBinary\<close> (\<open>compiled.BinaryDec\<close> in the source).\<close>

datatype SolvingMethod = SingleOutput | BinaryDec

text \<open>Modelled from the spec: a constraint is the tuple (L, R, O, hint) of three linear
  expressions and the hint; the witness must satisfy L * R = O.\<close>

record R1C =
  R1C_L :: LinearExpression
  R1C_R :: LinearExpression
  R1C_O :: LinearExpression
  Solver :: SolvingMethod

text \<open>Modelled from the spec: a log entry is a format string and the terms to resolve; the
  source fills the fields \<open>format\<close> and \<open>toResolve\<close>.\<close>

record logEntry =
  format :: string
  toResolve :: "Term list"

text \<open>Modelled from the spec: the constraint system holds the wire counts, the coefficient
  table, the constraints, the assertions (each with its diagnostic record) and the log
  entries, all in insertion order.\<close>

record ConstraintSystem =
  coeffs :: "int list"
  nbPublic :: nat
  nbSecret :: nat
  nbInternal :: nat
  constraints :: "R1C list"
  assertions :: "(R1C \<times> logEntry) list"
  logs :: "logEntry list"

text \<open>The arguments of type \<open>interface{}\<close>: a gadget switches on the dynamic type, which is
  either \<open>Variable\<close> or a value that \<open>FromInterface\<close> converts to a big integer. The
  conversion of such a value is the integer itself.\<close>

datatype operand = Var Variable | Const int

subsection \<open>Panics and the builder's state\<close>

datatype panic = IndexOutOfRange | MakeSliceLenOutOfRange | NotImplemented

type_synonym 'a builder = "ConstraintSystem \<Rightarrow> panic + ('a \<times> ConstraintSystem)"

definition ret :: "'a \<Rightarrow> 'a builder" where
  "ret x cs = Inr (x, cs)"

definition raise :: "panic \<Rightarrow> 'a builder" where
  "raise e cs = Inl e"

definition thenDo :: "'a builder \<Rightarrow> ('a \<Rightarrow> 'b builder) \<Rightarrow> 'b builder" where
  "thenDo m f cs = (case m cs of Inl e \<Rightarrow> Inl e | Inr (x, cs') \<Rightarrow> f x cs')"

subsection \<open>Coefficient pool\<close>

text \<open>Modelled from the spec: the first four slots of the coefficient table are reserved
  for 0, 1, -1 and 2, in this order.\<close>

definition CoeffIdZero :: nat where "CoeffIdZero = 0"
definition CoeffIdOne :: nat where "CoeffIdOne = 1"
definition CoeffIdMinusOne :: nat where "CoeffIdMinusOne = 2"
definition CoeffIdTwo :: nat where "CoeffIdTwo = 3"

text \<open>\<open>cs.coeffs[coeffID]\<close>: an index past the end of the table panics.\<close>

definition coeffsAt :: "nat \<Rightarrow> int builder" where
  "coeffsAt i cs =
     (if i < length (coeffs cs) then Inr (coeffs cs ! i, cs) else Inl IndexOutOfRange)"

text \<open>The first index at which a table holds a value.\<close>

fun firstIndex :: "int \<Rightarrow> int list \<Rightarrow> nat option" where
  "firstIndex b [] = None"
| "firstIndex b (x # xs) = (if x = b then Some 0 else map_option Suc (firstIndex b xs))"

text \<open>Modelled from the spec: \<open>coeffID\<close> (the pool's \<open>intern\<close>) is missing. The
  values 0, 1, -1, 2 have the reserved IDs 0..3 and are not inserted; any other value gets
  the ID under which the table already holds it, or is appended and gets the next ID.\<close>

definition coeffID :: "int \<Rightarrow> nat builder" where
  "coeffID b cs =
     (if b = - 1 then Inr (CoeffIdMinusOne, cs)
      else if b = 0 then Inr (CoeffIdZero, cs)
      else if b = 1 then Inr (CoeffIdOne, cs)
      else if b = 2 then Inr (CoeffIdTwo, cs)
      else (case firstIndex b (coeffs cs) of
              Some idx \<Rightarrow> Inr (idx, cs)
            | None \<Rightarrow> Inr (length (coeffs cs), cs\<lparr>coeffs := coeffs cs @ [b]\<rparr>)))"

text \<open>Modelled from the spec: \<open>makeTerm\<close> is missing; it interns the coefficient and packs
  the term for the wire.\<close>

definition makeTerm :: "Wire \<Rightarrow> int \<Rightarrow> Term builder" where
  "makeTerm w coeff = thenDo (coeffID coeff) (\<lambda>cid. ret (Pack (wire_id w) cid (visibility w)))"

subsection \<open>Wires, dangling variables and constraints\<close>

text \<open>Modelled from the spec: \<open>completeDanglingVariable\<close> is missing. A Variable whose linear
  expression is empty but whose wire is set gets the singleton expression 1 * wire. The
  source calls it on the local copy of the operand, so the completed copy is the result.\<close>

definition completeDanglingVariable :: "Variable \<Rightarrow> Variable" where
  "completeDanglingVariable v =
     (case wire v of
        Some w \<Rightarrow>
          if linExp v = [] then v\<lparr>linExp := [Pack (wire_id w) CoeffIdOne (visibility w)]\<rparr>
          else v
      | None \<Rightarrow> v)"

text \<open>Modelled from the spec: \<open>newInternalVariable\<close> is missing. It allocates the next
  internal wire and returns the Variable whose expression is 1 * wire.\<close>

definition newInternalVariable :: "Variable builder" where
  "newInternalVariable cs =
     (let idx = nbInternal cs in
      Inr (\<lparr>wire = Some (Wire Internal idx),
            linExp = [Pack idx CoeffIdOne Internal],
            isBoolean = False\<rparr>,
           cs\<lparr>nbInternal := idx + 1\<rparr>))"

text \<open>Modelled from the spec: \<open>getOneVariable\<close> is missing. It returns the cached Variable of
  the one-wire, the constant 1 with its fixed ID.\<close>

definition getOneVariable :: Variable where
  "getOneVariable =
     \<lparr>wire = Some (Wire One 0), linExp = [Pack 0 CoeffIdOne One], isBoolean = False\<rparr>"

text \<open>Modelled from the spec: \<open>newR1C\<close> is missing. It builds the constraint (L, R, O, hint)
  from the expressions of three Variables; the hint is an optional trailing argument and
  defaults to "single-output".\<close>

definition newR1C :: "Variable \<Rightarrow> Variable \<Rightarrow> Variable \<Rightarrow> SolvingMethod list \<Rightarrow> R1C" where
  "newR1C l r o' s =
     \<lparr>R1C_L = linExp l, R1C_R = linExp r, R1C_O = linExp o',
      Solver = (case s of [] \<Rightarrow> SingleOutput | m # _ \<Rightarrow> m)\<rparr>"

text \<open>\<open>cs.constraints = append(cs.constraints, c)\<close>.\<close>

definition appendConstraint :: "R1C \<Rightarrow> unit builder" where
  "appendConstraint c cs = Inr ((), cs\<lparr>constraints := constraints cs @ [c]\<rparr>)"

text \<open>Modelled from the spec: \<open>addAssertion\<close> is missing. It appends the assertion with its
  diagnostic record to the assertion sequence.\<close>

definition addAssertion :: "R1C \<Rightarrow> logEntry \<Rightarrow> unit builder" where
  "addAssertion c debugInfo cs = Inr ((), cs\<lparr>assertions := assertions cs @ [(c, debugInfo)]\<rparr>)"

text \<open>Modelled from the spec: \<open>getCallStack\<close> is missing and reads the run-time stack, which
  the constraint system does not depend on; the diagnostic text carries no frame here.\<close>

definition getCallStack :: "string list" where
  "getCallStack = []"

subsection \<open>Reduction of linear expressions\<close>

text \<open>Modelled from the spec: the order of the visibilities in the sort key is not given;
  they are ranked in the order the data model lists them.\<close>

fun visRank :: "Visibility \<Rightarrow> nat" where
  "visRank Public = 0"
| "visRank Secret = 1"
| "visRank Internal = 2"
| "visRank One = 3"

text \<open>Modelled from the spec: the sort key of a term is (visibility, wire-ID).\<close>

definition termKey :: "Term \<Rightarrow> nat \<times> nat" where
  "termKey t = (visRank (Vis t), VariableID t)"

text \<open>Reading the terms of an expression: the wire and the coefficient the table holds.\<close>

fun unpackAll :: "Term list \<Rightarrow> (Wire \<times> int) list builder" where
  "unpackAll [] = ret []"
| "unpackAll (t # ts) =
     thenDo (coeffsAt (CoeffID t)) (\<lambda>coeff.
     thenDo (unpackAll ts) (\<lambda>r.
     ret ((Wire (Vis t) (VariableID t), coeff) # r)))"

text \<open>Modelled from the spec: a run of neighbours on the same wire is folded into one pair,
  the coefficients summed.\<close>

fun foldRuns :: "(Wire \<times> int) list \<Rightarrow> (Wire \<times> int) list" where
  "foldRuns [] = []"
| "foldRuns [x] = [x]"
| "foldRuns ((w1, c1) # (w2, c2) # r) =
     (if w1 = w2 then foldRuns ((w1, c1 + c2) # r)
      else (w1, c1) # foldRuns ((w2, c2) # r))"

text \<open>Interning the coefficients of the pairs, in order, and packing the terms.\<close>

fun makeTerms :: "(Wire \<times> int) list \<Rightarrow> Term list builder" where
  "makeTerms [] = ret []"
| "makeTerms ((w, c) # r) =
     thenDo (makeTerm w c) (\<lambda>t.
     thenDo (makeTerms r) (\<lambda>ts.
     ret (t # ts)))"

text \<open>Modelled from the spec: \<open>reduce\<close> is missing. It sorts the expression by (visibility,
  wire-ID) ascending, folds each run of terms with the same key by summing their
  coefficients, drops the terms whose summed coefficient is zero, and interns the
  coefficients that remain. The coefficients are the big integers the source computes
  with: \<open>mulConstant\<close> and \<open>negateLinExp\<close> multiply and negate them as integers, and the sum
  is taken the same way.\<close>

definition reduce :: "LinearExpression \<Rightarrow> LinearExpression builder" where
  "reduce l =
     thenDo (unpackAll (sort_key termKey l)) (\<lambda>ps.
     makeTerms (filter (\<lambda>(w, c). c \<noteq> 0) (foldRuns ps)))"

subsection \<open>Arithmetic on linear expressions\<close>

fun negateLinExp :: "LinearExpression \<Rightarrow> LinearExpression builder" where
  "negateLinExp [] = ret []"
| "negateLinExp (t # ts) =
     thenDo (coeffsAt (CoeffID t)) (\<lambda>coeff.
     thenDo (makeTerm (Wire (Vis t) (VariableID t)) (- coeff)) (\<lambda>t'.
     thenDo (negateLinExp ts) (\<lambda>r.
     ret (t' # r))))"

fun mulConstantTerms :: "int \<Rightarrow> LinearExpression \<Rightarrow> LinearExpression builder" where
  "mulConstantTerms lambda [] = ret []"
| "mulConstantTerms lambda (t # ts) =
     thenDo (coeffsAt (CoeffID t)) (\<lambda>coeff.
     thenDo (makeTerm (Wire (Vis t) (VariableID t)) (coeff * lambda)) (\<lambda>t'.
     thenDo (mulConstantTerms lambda ts) (\<lambda>r.
     ret (t' # r))))"

definition mulConstant :: "int \<Rightarrow> Variable \<Rightarrow> Variable builder" where
  "mulConstant lambda v =
     thenDo (mulConstantTerms lambda (linExp v)) (\<lambda>l.
     ret \<lparr>wire = None, linExp = l, isBoolean = False\<rparr>)"

fun Constant :: "operand \<Rightarrow> Variable builder" where
  "Constant (Var t) = ret (completeDanglingVariable t)"
| "Constant (Const n) =
     (if n = 1 then ret getOneVariable else mulConstant n getOneVariable)"

text \<open>The closure \<open>add\<close> of \<open>Add\<close>: it appends the operand's expression to \<open>res.linExp\<close>.\<close>

fun addOperand :: "LinearExpression \<Rightarrow> operand \<Rightarrow> LinearExpression builder" where
  "addOperand acc (Var t) = ret (acc @ linExp (completeDanglingVariable t))"
| "addOperand acc (Const n) =
     thenDo (Constant (Const n)) (\<lambda>v. ret (acc @ linExp v))"

fun addOperands :: "LinearExpression \<Rightarrow> operand list \<Rightarrow> LinearExpression builder" where
  "addOperands acc [] = ret acc"
| "addOperands acc (x # xs) = thenDo (addOperand acc x) (\<lambda>acc'. addOperands acc' xs)"

definition Add :: "operand \<Rightarrow> operand \<Rightarrow> operand list \<Rightarrow> Variable builder" where
  "Add i1 i2 in' =
     thenDo (addOperand [] i1) (\<lambda>l1.
     thenDo (addOperand l1 i2) (\<lambda>l2.
     thenDo (addOperands l2 in') (\<lambda>l3.
     thenDo (reduce l3) (\<lambda>l.
     ret \<lparr>wire = None, linExp = l, isBoolean = False\<rparr>))))"

definition Sub :: "operand \<Rightarrow> operand \<Rightarrow> Variable builder" where
  "Sub i1 i2 =
     thenDo (case i1 of
               Var t \<Rightarrow> ret (linExp (completeDanglingVariable t))
             | Const n \<Rightarrow> thenDo (Constant (Const n)) (\<lambda>v. ret (linExp v))) (\<lambda>l1.
     thenDo (case i2 of
               Var t \<Rightarrow> negateLinExp (linExp (completeDanglingVariable t))
             | Const n \<Rightarrow> thenDo (Constant (Const n)) (\<lambda>v. negateLinExp (linExp v))) (\<lambda>negLinExp.
     thenDo (reduce (l1 @ negLinExp)) (\<lambda>l.
     ret \<lparr>wire = None, linExp = l, isBoolean = False\<rparr>)))"

subsection \<open>Multiplication\<close>

text \<open>The closure \<open>mul\<close> of \<open>Mul\<close>: the type switch on both operands.\<close>

fun mul :: "operand \<Rightarrow> operand \<Rightarrow> Variable builder" where
  "mul (Var t1) (Var t2) =
     thenDo newInternalVariable (\<lambda>res.
     thenDo (appendConstraint
               (newR1C (completeDanglingVariable t1) (completeDanglingVariable t2) res [])) (\<lambda>_.
     ret res))"
| "mul (Var t1) (Const n2) = mulConstant n2 (completeDanglingVariable t1)"
| "mul (Const n1) (Var t2) = mulConstant n1 (completeDanglingVariable t2)"
| "mul (Const n1) (Const n2) = Constant (Const (n1 * n2))"

fun mulRest :: "Variable \<Rightarrow> operand list \<Rightarrow> Variable builder" where
  "mulRest res [] = ret res"
| "mulRest res (x # xs) = thenDo (mul (Var res) x) (\<lambda>res'. mulRest res' xs)"

definition Mul :: "operand \<Rightarrow> operand \<Rightarrow> operand list \<Rightarrow> Variable builder" where
  "Mul i1 i2 in' = thenDo (mul i1 i2) (\<lambda>res. mulRest res in')"

subsection \<open>Boolean assertion\<close>

text \<open>\<open>AssertIsBoolean\<close> receives the Variable by value: the flag it sets is the flag of its
  own copy, and the only result of the call is the constraint system.\<close>

definition AssertIsBoolean :: "Variable \<Rightarrow> unit builder" where
  "AssertIsBoolean v0 =
     (let v = completeDanglingVariable v0 in
      if isBoolean v then ret ()
      else
        thenDo (Sub (Const 1) (Var v)) (\<lambda>nv.
        thenDo (Constant (Const 0)) (\<lambda>o'.
        let v' = v\<lparr>isBoolean := True\<rparr>;
            debugInfo = \<lparr>format = foldl (\<lambda>sbb frame. sbb @ [CHR 0x0A] @ frame)
                                       ''error AssertIsBoolean'' getCallStack,
                         toResolve = []\<rparr>
        in addAssertion (newR1C v' nv o' []) debugInfo)))"

subsection \<open>Bit decomposition\<close>

text \<open>The first loop of \<open>ToBinary\<close>: \<open>res[i] = cs.newInternalVariable()\<close> and
  \<open>cs.AssertIsBoolean(res[i])\<close> for \<open>i\<close> from 0 up to \<open>nbBits - 1\<close>.\<close>

fun toBinaryAlloc :: "nat \<Rightarrow> Variable list builder" where
  "toBinaryAlloc 0 = ret []"
| "toBinaryAlloc (Suc n) =
     thenDo newInternalVariable (\<lambda>b.
     thenDo (AssertIsBoolean b) (\<lambda>_.
     thenDo (toBinaryAlloc n) (\<lambda>bs.
     ret (b # bs))))"

text \<open>The second loop, over \<open>res[1]\<close>, ..., \<open>res[nbBits - 1]\<close>, with the running power of
  two \<open>coeff\<close>.\<close>

fun toBinarySum :: "Variable list \<Rightarrow> int \<Rightarrow> Variable \<Rightarrow> Variable builder" where
  "toBinarySum [] coeff v = ret v"
| "toBinarySum (r # rs) coeff v =
     thenDo (Mul (Const coeff) (Var r) []) (\<lambda>nv.
     thenDo (Add (Var v) (Var nv) []) (\<lambda>v'.
     toBinarySum rs (coeff * 2) v'))"

text \<open>\<open>make([]Variable, nbBits)\<close> panics on a negative length and \<open>res[0]\<close> panics on an
  empty slice.\<close>

definition ToBinary :: "Variable \<Rightarrow> int \<Rightarrow> Variable list builder" where
  "ToBinary a0 nbBits =
     (let a = completeDanglingVariable a0 in
      if nbBits < 0 then raise MakeSliceLenOutOfRange
      else
        thenDo (toBinaryAlloc (nat nbBits)) (\<lambda>res.
        case res of
          [] \<Rightarrow> raise IndexOutOfRange
        | r0 # rs \<Rightarrow>
            thenDo (Mul (Var r0) (Const 1) []) (\<lambda>v.
            thenDo (toBinarySum rs 2 v) (\<lambda>v'.
            thenDo (appendConstraint (newR1C v' getOneVariable a [BinaryDec])) (\<lambda>_.
            ret res)))))"

subsection \<open>Selection\<close>

definition Select :: "Variable \<Rightarrow> operand \<Rightarrow> operand \<Rightarrow> Variable builder" where
  "Select b0 i1 i2 =
     (let b = completeDanglingVariable b0 in
      thenDo (AssertIsBoolean b) (\<lambda>_.
      case i1 of
        Var t1' \<Rightarrow>
          (let t1 = completeDanglingVariable t1' in
           thenDo newInternalVariable (\<lambda>res.
           thenDo (Sub (Var t1) i2) (\<lambda>v.
           thenDo (Sub (Var res) i2) (\<lambda>w.
           thenDo (appendConstraint (newR1C b v w [])) (\<lambda>_.
           ret res)))))
      | Const n1 \<Rightarrow>
          (case i2 of
             Var t2' \<Rightarrow>
               (let t2 = completeDanglingVariable t2' in
                thenDo newInternalVariable (\<lambda>res.
                thenDo (Sub (Const n1) (Var t2)) (\<lambda>v.
                thenDo (Sub (Var res) (Var t2)) (\<lambda>w.
                thenDo (appendConstraint (newR1C b v w [])) (\<lambda>_.
                ret res)))))
           | Const n2 \<Rightarrow>
               (let diff = n2 - n1 in
                thenDo (Mul (Var b) (Const diff) []) (\<lambda>res.
                Add (Var res) (Const n2) [])))))"

subsection \<open>Curve identities and the field oracle\<close>

text \<open>The curve identities of the elliptic-curve library: the six the source names, the
  zero value \<open>UNKNOWN\<close> and any further value of the identity's integer type.\<close>

datatype ID = UNKNOWN | BN254 | BLS12_377 | BLS12_381 | BLS24_315 | BW6_761 | BW6_633
  | OtherID nat

text \<open>The parameters of a twisted-Edwards curve as the library's \<open>GetEdwardsCurve\<close> returns
  them, converted to big integers.\<close>

datatype CurveParams =
  CurveParams (crvA: int) (crvD: int) (crvCofactor: int) (crvOrder: int)
    (crvBaseX: int) (crvBaseY: int)

text \<open>The library is a parameter of the model: the curve tables and the scalar-field
  moduli are not part of the repository.\<close>

record ecclib =
  GetEdwardsCurve :: "ID \<Rightarrow> CurveParams"
  frModulus :: "ID \<Rightarrow> int"

subsection \<open>Is-zero\<close>

text \<open>\<open>len(expo.Bytes())\<close>: the number of bytes of the absolute value.\<close>

fun bytesLen :: "nat \<Rightarrow> nat" where
  "bytesLen n = (if n = 0 then 0 else Suc (bytesLen (n div 256)))"

declare bytesLen.simps [simp del]

text \<open>The loop \<open>for i := nbBits - 1; i >= 1; i--\<close>; the argument is the current \<open>i\<close>, and
  \<open>isZeroLoop expo a 0\<close> is the exit.\<close>

fun isZeroLoop :: "int \<Rightarrow> Variable \<Rightarrow> nat \<Rightarrow> Variable \<Rightarrow> Variable builder" where
  "isZeroLoop expo a 0 res = ret res"
| "isZeroLoop expo a (Suc j) res =
     thenDo (Mul (Var res) (Var res) []) (\<lambda>res'.
     if bit expo (Suc j)
     then thenDo (Mul (Var res') (Var a) []) (\<lambda>res''. isZeroLoop expo a j res'')
     else isZeroLoop expo a j res')"

definition IsZero :: "ecclib \<Rightarrow> Variable \<Rightarrow> ID \<Rightarrow> Variable builder" where
  "IsZero lib a id' =
     thenDo (case id' of
               BN254 \<Rightarrow> ret (frModulus lib BN254)
             | BLS12_381 \<Rightarrow> ret (frModulus lib BLS12_381)
             | BLS12_377 \<Rightarrow> ret (frModulus lib BLS12_377)
             | BW6_761 \<Rightarrow> ret (frModulus lib BW6_761)
             | BLS24_315 \<Rightarrow> ret (frModulus lib BLS24_315)
             | BW6_633 \<Rightarrow> ret (frModulus lib BW6_633)
             | _ \<Rightarrow> raise NotImplemented) (\<lambda>expo.
     thenDo (Constant (Const 1)) (\<lambda>res.
     let nbBits = bytesLen (nat \<bar>expo\<bar>) * 8 in
     thenDo (isZeroLoop expo a (nbBits - 1) res) (\<lambda>res'.
     thenDo (Mul (Var res') (Var res') []) (\<lambda>res''.
     Sub (Const 1) (Var res'')))))"

subsection \<open>Twisted-Edwards parameter registry\<close>

record EdCurve =
  A :: int
  D :: int
  Cofactor :: int
  Order :: int
  BaseX :: int
  BaseY :: int
  Modulus :: int
  ID :: ID

text \<open>The constructors share one body, with the curve's own table and modulus.\<close>

definition newEd :: "ecclib \<Rightarrow> ID \<Rightarrow> EdCurve" where
  "newEd lib c =
     (let edcurve = GetEdwardsCurve lib c;
          cofactorReg = crvCofactor edcurve;
          res = \<lparr>A = crvA edcurve, D = crvD edcurve, Cofactor = cofactorReg,
                 Order = crvOrder edcurve, BaseX = crvBaseX edcurve,
                 BaseY = crvBaseY edcurve, Modulus = 0, ID = c\<rparr>
      in res\<lparr>Modulus := frModulus lib c\<rparr>)"

definition newEdBN254 :: "ecclib \<Rightarrow> unit \<Rightarrow> EdCurve" where
  "newEdBN254 lib u = newEd lib BN254"

definition newEdBLS381 :: "ecclib \<Rightarrow> unit \<Rightarrow> EdCurve" where
  "newEdBLS381 lib u = newEd lib BLS12_381"

definition newEdBLS377 :: "ecclib \<Rightarrow> unit \<Rightarrow> EdCurve" where
  "newEdBLS377 lib u = newEd lib BLS12_377"

definition newEdBW761 :: "ecclib \<Rightarrow> unit \<Rightarrow> EdCurve" where
  "newEdBW761 lib u = newEd lib BW6_761"

definition newEdBLS315 :: "ecclib \<Rightarrow> unit \<Rightarrow> EdCurve" where
  "newEdBLS315 lib u = newEd lib BLS24_315"

definition newEdBW633 :: "ecclib \<Rightarrow> unit \<Rightarrow> EdCurve" where
  "newEdBW633 lib u = newEd lib BW6_633"

text \<open>The map \<open>newTwistedEdwards\<close> after \<open>init\<close> has run.\<close>

definition newTwistedEdwards :: "ecclib \<Rightarrow> ID \<rightharpoonup> (unit \<Rightarrow> EdCurve)" where
  "newTwistedEdwards lib =
     Map.empty(BLS12_381 \<mapsto> newEdBLS381 lib,
               BN254 \<mapsto> newEdBN254 lib,
               BLS12_377 \<mapsto> newEdBLS377 lib,
               BW6_761 \<mapsto> newEdBW761 lib,
               BLS24_315 \<mapsto> newEdBLS315 lib,
               BW6_633 \<mapsto> newEdBW633 lib)"

text \<open>\<open>EdCurve{}\<close>: every big integer zero, the identity the zero value.\<close>

definition emptyEdCurve :: EdCurve where
  "emptyEdCurve =
     \<lparr>A = 0, D = 0, Cofactor = 0, Order = 0, BaseX = 0, BaseY = 0, Modulus = 0,
      ID = UNKNOWN\<rparr>"

definition NewEdCurve :: "ecclib \<Rightarrow> ID \<Rightarrow> EdCurve \<times> string option" where
  "NewEdCurve lib id' =
     (case newTwistedEdwards lib id' of
        Some constructor \<Rightarrow> (constructor (), None)
      | None \<Rightarrow> (emptyEdCurve, Some ''unknown curve id''))"

subsection \<open>The empty constraint system and the meaning of expressions\<close>

text \<open>Modelled from the spec: the constructor of the constraint system is missing. The
  system is created empty, with the first four slots of the coefficient table holding
  0, 1, -1 and 2.\<close>

definition newConstraintSystem :: ConstraintSystem where
  "newConstraintSystem =
     \<lparr>coeffs = [0, 1, - 1, 2], nbPublic = 0, nbSecret = 0, nbInternal = 0,
      constraints = [], assertions = [], logs = []\<rparr>"

text \<open>A witness assigns a value to every wire. The value of a linear expression is the sum
  of its terms, each the coefficient the table holds under the term's ID times the value
  of the term's wire.\<close>

type_synonym witness = "Wire \<Rightarrow> int"

definition termValue :: "int list \<Rightarrow> witness \<Rightarrow> Term \<Rightarrow> int" where
  "termValue tab w t = tab ! CoeffID t * w (Wire (Vis t) (VariableID t))"

definition linExpValue :: "int list \<Rightarrow> witness \<Rightarrow> LinearExpression \<Rightarrow> int" where
  "linExpValue tab w l = sum_list (map (termValue tab w) l)"

subsection \<open>Notions used to state the properties\<close>

text \<open>A builder step that succeeds may extend the coefficient table and nothing else.\<close>

definition coeffsGrow :: "ConstraintSystem \<Rightarrow> ConstraintSystem \<Rightarrow> bool" where
  "coeffsGrow cs cs' = (\<exists>ext. cs' = cs\<lparr>coeffs := coeffs cs @ ext\<rparr>)"

text \<open>The only panic of the arithmetic is the index panic of the coefficient table.\<close>

definition indexPanicsOnly :: "'a builder \<Rightarrow> bool" where
  "indexPanicsOnly m = (\<forall>cs e. m cs = Inl e \<longrightarrow> e = IndexOutOfRange)"

text \<open>A user-declared secret Variable before its first use: the wire is set, the
  expression is still empty.\<close>

definition exampleSecret :: Variable where
  "exampleSecret = \<lparr>wire = Some (Wire Secret 0), linExp = [], isBoolean = False\<rparr>"

text \<open>The witness that sets the one-wire and the first secret wire to 1.\<close>

definition selectorSet :: witness where
  "selectorSet = (\<lambda>w. 0)(Wire One 0 := 1, Wire Secret 0 := 1)"

text \<open>A stand-in for the elliptic-curve library with small numbers: every curve has the
  scalar field of order 3.\<close>

definition exampleLib :: ecclib where
  "exampleLib = \<lparr>GetEdwardsCurve = (\<lambda>c. CurveParams 1 2 8 5 3 4), frModulus = (\<lambda>c. 3)\<rparr>"

text \<open>The coefficient table starts with the reserved values 0, 1, -1, 2.\<close>

definition wfCS :: "ConstraintSystem \<Rightarrow> bool" where
  "wfCS cs = (take 4 (coeffs cs) = [0, 1, - 1, 2])"

text \<open>Every coefficient ID of the expression is an index of the table.\<close>

definition validLinExp :: "ConstraintSystem \<Rightarrow> LinearExpression \<Rightarrow> bool" where
  "validLinExp cs l = list_all (\<lambda>t. CoeffID t < length (coeffs cs)) l"

text \<open>What a term denotes: its wire and the coefficient the table holds under its ID.\<close>

definition termView :: "int list \<Rightarrow> Term \<Rightarrow> Wire \<times> int" where
  "termView tab t = (Wire (Vis t) (VariableID t), tab ! CoeffID t)"

text \<open>What \<open>reduce\<close> computes before it interns the coefficients again.\<close>

definition reducedView :: "int list \<Rightarrow> LinearExpression \<Rightarrow> (Wire \<times> int) list" where
  "reducedView tab l =
     filter (\<lambda>(w, c). c \<noteq> 0) (foldRuns (map (termView tab) (sort_key termKey l)))"

text \<open>The sort key of \<open>reduce\<close>, on wires.\<close>

definition wireKey :: "Wire \<Rightarrow> nat \<times> nat" where
  "wireKey w = (visRank (visibility w), wire_id w)"

text \<open>The sum of the coefficients a list of (wire, coefficient) pairs gives to a wire.\<close>

definition coeffOf :: "(Wire \<times> int) list \<Rightarrow> Wire \<Rightarrow> int" where
  "coeffOf ps w = sum_list (map (\<lambda>p. if fst p = w then snd p else 0) ps)"

text \<open>Sorting, folding the runs and dropping the zeros, on (wire, coefficient) pairs.\<close>

definition normalForm :: "(Wire \<times> int) list \<Rightarrow> (Wire \<times> int) list" where
  "normalForm ps = filter (\<lambda>(w, c). c \<noteq> 0) (foldRuns (sort_key (\<lambda>p. wireKey (fst p)) ps))"

text \<open>Strictly increasing sort keys.\<close>

abbreviation keyLess :: "Wire \<times> int \<Rightarrow> Wire \<times> int \<Rightarrow> bool" where
  "keyLess p q \<equiv> wireKey (fst p) < wireKey (fst q)"

text \<open>What an operand of \<open>Add\<close> or \<open>Sub\<close> denotes: a Variable its completed expression, a
  constant its multiple of the one-wire.\<close>

fun operandView :: "int list \<Rightarrow> operand \<Rightarrow> (Wire \<times> int) list" where
  "operandView tab (Var v) = map (termView tab) (linExp (completeDanglingVariable v))"
| "operandView tab (Const k) = [(Wire One 0, k)]"

text \<open>A Variable operand whose coefficient IDs are indices of the table; a constant always.\<close>

fun validOperand :: "ConstraintSystem \<Rightarrow> operand \<Rightarrow> bool" where
  "validOperand cs (Var v) = validLinExp cs (linExp (completeDanglingVariable v))"
| "validOperand cs (Const k) = True"

text \<open>The Variable \<open>newInternalVariable\<close> returns for the internal wire \<open>n\<close>.\<close>

definition internalVariable :: "nat \<Rightarrow> Variable" where
  "internalVariable n =
     \<lparr>wire = Some (Wire Internal n), linExp = [Pack n CoeffIdOne Internal], isBoolean = False\<rparr>"

text \<open>The assertion \<open>AssertIsBoolean\<close> appends for the internal wire \<open>n\<close>: the constraint
  b * (-b + 1) = 0 with its diagnostic record.\<close>

definition booleanAssertion :: "nat \<Rightarrow> R1C \<times> logEntry" where
  "booleanAssertion n =
     (\<lparr>R1C_L = [Pack n CoeffIdOne Internal],
       R1C_R = [Pack n CoeffIdMinusOne Internal, Pack 0 CoeffIdOne One],
       R1C_O = [Pack 0 CoeffIdZero One], Solver = SingleOutput\<rparr>,
      \<lparr>format = ''error AssertIsBoolean'', toResolve = []\<rparr>)"

text \<open>The sum of 2^i * b_i over the internal wires \<open>k\<close>, ..., \<open>k + n - 1\<close>, least significant
  bit first.\<close>

definition binaryView :: "nat \<Rightarrow> nat \<Rightarrow> (Wire \<times> int) list" where
  "binaryView k n = map (\<lambda>i. (Wire Internal (k + i), 2 ^ i)) [0..<n]"

text \<open>The constraint system after \<open>Add\<close> has read one operand: a constant is turned into
  a Variable by \<open>Constant\<close>, which may intern its coefficient.\<close>

definition operandState :: "operand \<Rightarrow> ConstraintSystem \<Rightarrow> ConstraintSystem" where
  "operandState i cs = (case Constant i cs of Inr (v, cs') \<Rightarrow> cs' | Inl e \<Rightarrow> cs)"



text \<open>A witness satisfies a constraint (L, R, O) over the field of order \<open>p\<close> when the values
  of its expressions satisfy L * R = O modulo \<open>p\<close>.\<close>

definition r1cHolds :: "int \<Rightarrow> int list \<Rightarrow> witness \<Rightarrow> R1C \<Rightarrow> bool" where
  "r1cHolds p tab w c =
     ((linExpValue tab w (R1C_L c) * linExpValue tab w (R1C_R c)) mod p =
      linExpValue tab w (R1C_O c) mod p)"

text \<open>A witness of the constraint system: the one-wire is 1 and every constraint holds.\<close>

definition satisfies :: "int \<Rightarrow> ConstraintSystem \<Rightarrow> witness \<Rightarrow> bool" where
  "satisfies p cs w =
     (w (Wire One 0) = 1 \<and> list_all (r1cHolds p (coeffs cs) w) (constraints cs))"

text \<open>The value of a Variable: the value of its expression, completed if it is dangling.\<close>

definition varValue :: "int list \<Rightarrow> witness \<Rightarrow> Variable \<Rightarrow> int" where
  "varValue tab w v = linExpValue tab w (linExp (completeDanglingVariable v))"

text \<open>The exponent the loop of \<open>IsZero\<close> has reached: a squaring doubles it, a multiplication
  by \<open>a\<close> adds one.\<close>

fun loopExp :: "int \<Rightarrow> nat \<Rightarrow> nat \<Rightarrow> nat" where
  "loopExp expo 0 e = e"
| "loopExp expo (Suc j) e = loopExp expo j (2 * e + (if bit expo (Suc j) then 1 else 0))"

text \<open>Primality by trial division.\<close>

definition isPrime :: "nat \<Rightarrow> bool" where
  "isPrime p = (2 \<le> p \<and> (\<forall>d \<in> {2..<p}. \<not> d dvd p))"

text \<open>A witness for \<open>IsZero\<close> over the field of order 3 with the input 2: the squarings of 1,
  then 1 * 2 = 2, then 2 * 2 = 4.\<close>

definition isZeroWitness :: witness where
  "isZeroWitness w =
     (case w of
        Wire One n \<Rightarrow> 1
      | Wire Secret n \<Rightarrow> 2
      | Wire Internal n \<Rightarrow> (if n < 7 then 1 else if n = 7 then 2 else 4)
      | Wire Public n \<Rightarrow> 0)"

text \<open>The Variable and the constraint system \<open>IsZero\<close> returns on the first secret wire, from
  the empty system, over the field of order 3.\<close>

definition isZeroExample :: "Variable \<times> ConstraintSystem" where
  "isZeroExample =
     (\<lparr>wire = None, linExp = [Pack 8 2 Internal, Pack 0 1 One], isBoolean = False\<rparr>,
      newConstraintSystem
        \<lparr>nbInternal := 9,
         constraints :=
           [\<lparr>R1C_L = [Pack 0 1 One], R1C_R = [Pack 0 1 One],
              R1C_O = [Pack 0 1 Internal], Solver = SingleOutput\<rparr>,
            \<lparr>R1C_L = [Pack 0 1 Internal], R1C_R = [Pack 0 1 Internal],
              R1C_O = [Pack 1 1 Internal], Solver = SingleOutput\<rparr>,
            \<lparr>R1C_L = [Pack 1 1 Internal], R1C_R = [Pack 1 1 Internal],
              R1C_O = [Pack 2 1 Internal], Solver = SingleOutput\<rparr>,
            \<lparr>R1C_L = [Pack 2 1 Internal], R1C_R = [Pack 2 1 Internal],
              R1C_O = [Pack 3 1 Internal], Solver = SingleOutput\<rparr>,
            \<lparr>R1C_L = [Pack 3 1 Internal], R1C_R = [Pack 3 1 Internal],
              R1C_O = [Pack 4 1 Internal], Solver = SingleOutput\<rparr>,
            \<lparr>R1C_L = [Pack 4 1 Internal], R1C_R = [Pack 4 1 Internal],
              R1C_O = [Pack 5 1 Internal], Solver = SingleOutput\<rparr>,
            \<lparr>R1C_L = [Pack 5 1 Internal], R1C_R = [Pack 5 1 Internal],
              R1C_O = [Pack 6 1 Internal], Solver = SingleOutput\<rparr>,
            \<lparr>R1C_L = [Pack 6 1 Internal], R1C_R = [Pack 0 1 Secret],
              R1C_O = [Pack 7 1 Internal], Solver = SingleOutput\<rparr>,
            \<lparr>R1C_L = [Pack 7 1 Internal], R1C_R = [Pack 7 1 Internal],
              R1C_O = [Pack 8 1 Internal], Solver = SingleOutput\<rparr>]\<rparr>)"


section \<open>Properties\<close>

subsection \<open>Sequencing\<close>

lemma ret_apply [simp]: "ret x cs = Inr (x, cs)"
  by (simp add: ret_def)

lemma raise_apply [simp]: "raise e cs = Inl e"
  by (simp add: raise_def)

lemma thenDo_Inr:
  "thenDo m f cs = Inr r \<longleftrightarrow> (\<exists>x cs'. m cs = Inr (x, cs') \<and> f x cs' = Inr r)"
  by (auto simp: thenDo_def split: sum.splits)

lemma thenDo_Inl:
  "thenDo m f cs = Inl e \<longleftrightarrow>
     (m cs = Inl e \<or> (\<exists>x cs'. m cs = Inr (x, cs') \<and> f x cs' = Inl e))"
  by (auto simp: thenDo_def split: sum.splits)

lemma thenDo_step: "m cs = Inr (x, cs') \<Longrightarrow> thenDo m f cs = f x cs'"
  by (simp add: thenDo_def)

lemma thenDo_fail: "m cs = Inl e \<Longrightarrow> thenDo m f cs = Inl e"
  by (simp add: thenDo_def)

subsection \<open>Arithmetic steps only extend the coefficient table\<close>

lemma coeffsGrow_refl [simp]: "coeffsGrow cs cs"
  by (auto simp: coeffsGrow_def intro: exI [of _ "[]"])

lemma coeffsGrow_trans: "coeffsGrow cs cs' \<Longrightarrow> coeffsGrow cs' cs'' \<Longrightarrow> coeffsGrow cs cs''"
  by (auto simp: coeffsGrow_def)

lemma coeffsGrow_fields:
  assumes "coeffsGrow cs cs'"
  shows "constraints cs' = constraints cs" "assertions cs' = assertions cs"
    "nbInternal cs' = nbInternal cs" "nbPublic cs' = nbPublic cs" "nbSecret cs' = nbSecret cs"
    "logs cs' = logs cs"
  using assms by (auto simp: coeffsGrow_def)

lemma coeffsAt_Inr:
  "coeffsAt i cs = Inr (c, cs') \<longleftrightarrow> i < length (coeffs cs) \<and> c = coeffs cs ! i \<and> cs' = cs"
  by (auto simp: coeffsAt_def)

lemma coeffID_cases:
  "coeffID b cs = Inr (i, cs') \<Longrightarrow> cs' = cs \<or> cs' = cs\<lparr>coeffs := coeffs cs @ [b]\<rparr>"
  by (auto simp: coeffID_def split: if_splits option.splits)

lemma coeffID_grow: "coeffID b cs = Inr (i, cs') \<Longrightarrow> coeffsGrow cs cs'"
proof -
  assume "coeffID b cs = Inr (i, cs')"
  then consider "cs' = cs" | "cs' = cs\<lparr>coeffs := coeffs cs @ [b]\<rparr>"
    using coeffID_cases by blast
  then show ?thesis
  proof cases
    case 1
    then show ?thesis by simp
  next
    case 2
    then show ?thesis unfolding coeffsGrow_def by blast
  qed
qed

lemma makeTerm_grow: "makeTerm w c cs = Inr (t, cs') \<Longrightarrow> coeffsGrow cs cs'"
  by (auto simp: makeTerm_def thenDo_Inr dest: coeffID_grow)

lemma mulConstantTerms_grow: "mulConstantTerms k l cs = Inr (r, cs') \<Longrightarrow> coeffsGrow cs cs'"
proof (induction l arbitrary: cs r cs')
  case Nil
  then show ?case by simp
next
  case (Cons t ts)
  then show ?case
    by (auto simp: thenDo_Inr coeffsAt_Inr dest!: makeTerm_grow intro: coeffsGrow_trans)
qed

lemma mulConstant_grow: "mulConstant k v cs = Inr (r, cs') \<Longrightarrow> coeffsGrow cs cs'"
  by (auto simp: mulConstant_def thenDo_Inr dest: mulConstantTerms_grow)

lemma Constant_grow: "Constant i cs = Inr (r, cs') \<Longrightarrow> coeffsGrow cs cs'"
  by (cases i) (auto dest: mulConstant_grow split: if_splits)

subsection \<open>Multiplication\<close>

lemma Mul_nil: "Mul i1 i2 [] = mul i1 i2"
  by (rule ext) (simp add: Mul_def thenDo_def split: sum.splits)

lemma mul_Var_Var:
  "mul (Var x) (Var y) cs =
     Inr (\<lparr>wire = Some (Wire Internal (nbInternal cs)),
           linExp = [Pack (nbInternal cs) CoeffIdOne Internal], isBoolean = False\<rparr>,
          cs\<lparr>nbInternal := nbInternal cs + 1,
             constraints := constraints cs @
               [\<lparr>R1C_L = linExp (completeDanglingVariable x),
                 R1C_R = linExp (completeDanglingVariable y),
                 R1C_O = [Pack (nbInternal cs) CoeffIdOne Internal],
                 Solver = SingleOutput\<rparr>]\<rparr>)"
  by (simp add: thenDo_def newInternalVariable_def appendConstraint_def newR1C_def Let_def)

declare mul.simps(1) [simp del]


lemma mulConstant_5_one:
  "mulConstant 5 getOneVariable newConstraintSystem =
     Inr (\<lparr>wire = None, linExp = [Pack 0 4 One], isBoolean = False\<rparr>,
          newConstraintSystem\<lparr>coeffs := [0, 1, - 1, 2, 5]\<rparr>)"
  by (simp add: mulConstant_def getOneVariable_def newConstraintSystem_def thenDo_def
      coeffsAt_def makeTerm_def coeffID_def CoeffIdOne_def)



lemma mul_constraints:
  assumes "mul i1 i2 cs = Inr (r, cs')"
  shows "constraints cs' = constraints cs \<longleftrightarrow> \<not> (\<exists>x y. i1 = Var x \<and> i2 = Var y)"
proof (cases i1; cases i2)
  fix x y assume "i1 = Var x" "i2 = Var y"
  with assms show ?thesis by (auto simp: mul_Var_Var)
next
  fix x k assume "i1 = Var x" "i2 = Const k"
  with assms show ?thesis by (auto dest!: mulConstant_grow simp: coeffsGrow_fields)
next
  fix x k assume "i1 = Const k" "i2 = Var x"
  with assms show ?thesis by (auto dest!: mulConstant_grow simp: coeffsGrow_fields)
next
  fix k1 k2 assume "i1 = Const k1" "i2 = Const k2"
  with assms show ?thesis
    using Constant_grow [of "Const (k1 * k2)" cs r cs'] by (auto simp: coeffsGrow_fields)
qed

text \<open>
  Claim C9. The fast path of \<open>Mul\<close> is chosen by the dynamic type of the arguments, not
  by their values: for any two arguments of type Variable (the one-wire and the Variables
  \<open>Constant\<close> returns among them) \<open>Mul\<close> allocates a fresh internal wire and appends one
  constraint, so \<open>Mul(Constant(5), v)\<close> appends a constraint; and a call \<open>Mul(i1, i2)\<close>
  leaves the constraints as they were exactly when the arguments are not both of
  type Variable.
\<close>

theorem Mul_dispatches_on_dynamic_type:
  "(\<exists>z cs'. Mul (Var x) (Var y) [] cs = Inr (z, cs')
       \<and> wire z = Some (Wire Internal (nbInternal cs))
       \<and> nbInternal cs' = nbInternal cs + 1
       \<and> constraints cs' = constraints cs @
            [newR1C (completeDanglingVariable x) (completeDanglingVariable y) z []])
   \<and> (Constant (Const 5) cs = Inr (c5, cs1) \<longrightarrow>
        (\<exists>z cs2. Mul (Var c5) (Var v) [] cs1 = Inr (z, cs2)
           \<and> constraints cs2 = constraints cs @
                [newR1C (completeDanglingVariable c5) (completeDanglingVariable v) z []]))
   \<and> (Mul i1 i2 [] cs = Inr (r, cs'') \<longrightarrow>
        (constraints cs'' = constraints cs \<longleftrightarrow> \<not> (\<exists>x y. i1 = Var x \<and> i2 = Var y)))"
proof (intro conjI impI)
  show "\<exists>z cs'. Mul (Var x) (Var y) [] cs = Inr (z, cs')
       \<and> wire z = Some (Wire Internal (nbInternal cs))
       \<and> nbInternal cs' = nbInternal cs + 1
       \<and> constraints cs' = constraints cs @
            [newR1C (completeDanglingVariable x) (completeDanglingVariable y) z []]"
    by (simp add: Mul_nil mul_Var_Var newR1C_def)
next
  assume "Constant (Const 5) cs = Inr (c5, cs1)"
  then have "constraints cs1 = constraints cs"
    using Constant_grow coeffsGrow_fields(1) by blast
  then show "\<exists>z cs2. Mul (Var c5) (Var v) [] cs1 = Inr (z, cs2)
           \<and> constraints cs2 = constraints cs @
                [newR1C (completeDanglingVariable c5) (completeDanglingVariable v) z []]"
    by (simp add: Mul_nil mul_Var_Var newR1C_def)
next
  assume "Mul i1 i2 [] cs = Inr (r, cs'')"
  then show "constraints cs'' = constraints cs \<longleftrightarrow> \<not> (\<exists>x y. i1 = Var x \<and> i2 = Var y)"
    using mul_constraints by (simp add: Mul_nil)
qed

theorem Mul_dispatches_on_dynamic_type_witness:
  "Constant (Const 5) newConstraintSystem =
     Inr (\<lparr>wire = None, linExp = [Pack 0 4 One], isBoolean = False\<rparr>,
          newConstraintSystem\<lparr>coeffs := [0, 1, - 1, 2, 5]\<rparr>)
   \<and> (\<exists>z cs2. Mul (Var \<lparr>wire = None, linExp = [Pack 0 4 One], isBoolean = False\<rparr>)
                 (Var exampleSecret) [] (newConstraintSystem\<lparr>coeffs := [0, 1, - 1, 2, 5]\<rparr>)
               = Inr (z, cs2)
        \<and> constraints cs2 =
            [newR1C \<lparr>wire = None, linExp = [Pack 0 4 One], isBoolean = False\<rparr>
               (completeDanglingVariable exampleSecret) z []])
   \<and> Mul (Const 5) (Var getOneVariable) [] newConstraintSystem =
     Inr (\<lparr>wire = None, linExp = [Pack 0 4 One], isBoolean = False\<rparr>,
          newConstraintSystem\<lparr>coeffs := [0, 1, - 1, 2, 5]\<rparr>)
   \<and> constraints (newConstraintSystem\<lparr>coeffs := [0, 1, - 1, 2, 5]\<rparr>) =
       constraints newConstraintSystem"
proof -
  have c5: "Constant (Const 5) newConstraintSystem =
     Inr (\<lparr>wire = None, linExp = [Pack 0 4 One], isBoolean = False\<rparr>,
          newConstraintSystem\<lparr>coeffs := [0, 1, - 1, 2, 5]\<rparr>)"
    using mulConstant_5_one by simp
  have m5: "Mul (Const 5) (Var getOneVariable) [] newConstraintSystem =
     Inr (\<lparr>wire = None, linExp = [Pack 0 4 One], isBoolean = False\<rparr>,
          newConstraintSystem\<lparr>coeffs := [0, 1, - 1, 2, 5]\<rparr>)"
    using mulConstant_5_one
    by (simp add: Mul_nil completeDanglingVariable_def getOneVariable_def)
  show ?thesis
    using c5 m5
      Mul_dispatches_on_dynamic_type [where cs = newConstraintSystem
        and ?c5.0 = "\<lparr>wire = None, linExp = [Pack 0 4 One], isBoolean = False\<rparr>"
        and ?cs1.0 = "newConstraintSystem\<lparr>coeffs := [0, 1, - 1, 2, 5]\<rparr>"
        and v = exampleSecret and ?i1.0 = "Const 5" and ?i2.0 = "Var getOneVariable"
        and r = "\<lparr>wire = None, linExp = [Pack 0 4 One], isBoolean = False\<rparr>"
        and cs'' = "newConstraintSystem\<lparr>coeffs := [0, 1, - 1, 2, 5]\<rparr>"]
    by (simp add: newConstraintSystem_def completeDanglingVariable_def)
qed

subsection \<open>Panics of the arithmetic\<close>

lemma indexPanicsOnly_Inr [simp]: "indexPanicsOnly (\<lambda>cs. Inr (x, cs))"
  by (simp add: indexPanicsOnly_def)

lemma indexPanicsOnly_ret [simp]: "indexPanicsOnly (ret x)"
  by (simp add: indexPanicsOnly_def)

lemma indexPanicsOnly_thenDo:
  "indexPanicsOnly m \<Longrightarrow> (\<And>x. indexPanicsOnly (f x)) \<Longrightarrow> indexPanicsOnly (thenDo m f)"
  unfolding indexPanicsOnly_def thenDo_Inl by blast

lemma indexPanicsOnly_coeffsAt [simp]: "indexPanicsOnly (coeffsAt i)"
  by (simp add: indexPanicsOnly_def coeffsAt_def)

lemma indexPanicsOnly_coeffID [simp]: "indexPanicsOnly (coeffID b)"
  by (simp add: indexPanicsOnly_def coeffID_def split: option.splits)

lemma indexPanicsOnly_makeTerm [simp]: "indexPanicsOnly (makeTerm w c)"
  by (simp add: makeTerm_def indexPanicsOnly_thenDo)

lemma indexPanicsOnly_mulConstantTerms [simp]: "indexPanicsOnly (mulConstantTerms k l)"
  by (induction l) (simp_all add: indexPanicsOnly_thenDo)

lemma indexPanicsOnly_negateLinExp [simp]: "indexPanicsOnly (negateLinExp l)"
  by (induction l) (simp_all add: indexPanicsOnly_thenDo)

lemma indexPanicsOnly_unpackAll [simp]: "indexPanicsOnly (unpackAll l)"
  by (induction l) (simp_all add: indexPanicsOnly_thenDo)

lemma indexPanicsOnly_makeTerms [simp]: "indexPanicsOnly (makeTerms ps)"
  by (induction ps) (auto simp: indexPanicsOnly_thenDo)

lemma indexPanicsOnly_reduce [simp]: "indexPanicsOnly (reduce l)"
  by (simp add: reduce_def indexPanicsOnly_thenDo)

lemma indexPanicsOnly_mulConstant [simp]: "indexPanicsOnly (mulConstant k v)"
  by (simp add: mulConstant_def indexPanicsOnly_thenDo)

lemma indexPanicsOnly_Constant [simp]: "indexPanicsOnly (Constant i)"
  by (cases i) simp_all

lemma indexPanicsOnly_Sub [simp]: "indexPanicsOnly (Sub i1 i2)"
  by (cases i1; cases i2) (simp_all add: Sub_def indexPanicsOnly_thenDo)

lemma indexPanicsOnly_newInternalVariable [simp]: "indexPanicsOnly newInternalVariable"
  by (simp add: indexPanicsOnly_def newInternalVariable_def Let_def)

lemma indexPanicsOnly_appendConstraint [simp]: "indexPanicsOnly (appendConstraint c)"
  by (simp add: indexPanicsOnly_def appendConstraint_def)

lemma indexPanicsOnly_mul [simp]: "indexPanicsOnly (mul i1 i2)"
  by (cases i1; cases i2) (simp_all add: indexPanicsOnly_thenDo mul.simps(1))

lemma indexPanicsOnly_Mul_nil [simp]: "indexPanicsOnly (Mul i1 i2 [])"
  by (simp add: Mul_nil)

lemma indexPanicsOnly_isZeroLoop [simp]: "indexPanicsOnly (isZeroLoop expo a j res)"
  by (induction j arbitrary: res) (simp_all add: indexPanicsOnly_thenDo)

lemma IsZero_after_switch:
  "indexPanicsOnly (\<lambda>cs. thenDo (Constant (Const 1)) (\<lambda>res.
     let nbBits = bytesLen (nat \<bar>expo\<bar>) * 8 in
     thenDo (isZeroLoop expo a (nbBits - 1) res) (\<lambda>res'.
     thenDo (Mul (Var res') (Var res') []) (\<lambda>res''.
     Sub (Const 1) (Var res'')))) cs)"
  by (simp add: indexPanicsOnly_thenDo Let_def)

subsection \<open>The twisted-Edwards registry\<close>

text \<open>
  Claim C8. \<open>NewEdCurve(id)\<close> returns the parameter record (A, D, Cofactor, Order, BaseX,
  BaseY, Modulus) of the curve, with no error, for each of the six registered identities
  BN254, BLS12_381, BLS12_377, BW6_761, BLS24_315 and BW6_633, and returns the empty
  record with the error "unknown curve id" exactly when the identity is not one of them.
\<close>

theorem NewEdCurve_registry:
  "(id' \<in> {BN254, BLS12_381, BLS12_377, BW6_761, BLS24_315, BW6_633} \<longrightarrow>
      NewEdCurve lib id' =
        (\<lparr>A = crvA (GetEdwardsCurve lib id'), D = crvD (GetEdwardsCurve lib id'),
          Cofactor = crvCofactor (GetEdwardsCurve lib id'),
          Order = crvOrder (GetEdwardsCurve lib id'),
          BaseX = crvBaseX (GetEdwardsCurve lib id'),
          BaseY = crvBaseY (GetEdwardsCurve lib id'),
          Modulus = frModulus lib id', ID = id'\<rparr>, None))
   \<and> (id' \<notin> {BN254, BLS12_381, BLS12_377, BW6_761, BLS24_315, BW6_633} \<longrightarrow>
      NewEdCurve lib id' = (emptyEdCurve, Some ''unknown curve id''))"
  by (cases id')
     (simp_all add: NewEdCurve_def newTwistedEdwards_def newEd_def Let_def newEdBN254_def
       newEdBLS381_def newEdBLS377_def newEdBW761_def newEdBLS315_def newEdBW633_def)

theorem NewEdCurve_registry_witness:
  "BLS12_381 \<in> {BN254, BLS12_381, BLS12_377, BW6_761, BLS24_315, BW6_633}
   \<and> NewEdCurve exampleLib BLS12_381 =
       (\<lparr>A = 1, D = 2, Cofactor = 8, Order = 5, BaseX = 3, BaseY = 4, Modulus = 3,
         ID = BLS12_381\<rparr>, None)
   \<and> UNKNOWN \<notin> {BN254, BLS12_381, BLS12_377, BW6_761, BLS24_315, BW6_633}
   \<and> NewEdCurve exampleLib UNKNOWN = (emptyEdCurve, Some ''unknown curve id'')"
  using NewEdCurve_registry [of BLS12_381 exampleLib] NewEdCurve_registry [of UNKNOWN exampleLib]
  by (simp add: exampleLib_def)

subsection \<open>Boundary and sign defects, evaluated\<close>

text \<open>
  Claim C4. \<open>ToBinary(a, 0)\<close> is claimed to return the empty list and to emit the trivial
  constraint R1C(0, 1, a) without failure. The source reads \<open>res[0]\<close> of the slice of
  length \<open>nbBits\<close> before its second loop, so with \<open>nbBits = 0\<close> the call panics with an
  index out of range, for every Variable and every constraint system.
\<close>

theorem ToBinary_zero_bits_panics: "ToBinary a 0 cs = Inl IndexOutOfRange"
  by (simp add: ToBinary_def thenDo_def)

lemma AssertIsBoolean_flagged:
  "isBoolean (completeDanglingVariable v) \<Longrightarrow> AssertIsBoolean v cs = Inr ((), cs)"
  by (simp add: AssertIsBoolean_def Let_def)

text \<open>
  Claim C6. \<open>AssertIsBoolean(v)\<close> is claimed to flag the handle so that a second call on
  the same handle is skipped. The flag is set on the callee's copy of the Variable, so
  the caller's handle stays unflagged: two calls on the same handle append the same
  assertion twice.
\<close>

theorem AssertIsBoolean_twice_asserts_twice:
  "thenDo (AssertIsBoolean exampleSecret) (\<lambda>u. AssertIsBoolean exampleSecret)
     newConstraintSystem =
   Inr ((), newConstraintSystem
     \<lparr>assertions :=
        [(\<lparr>R1C_L = [Pack 0 1 Secret], R1C_R = [Pack 0 2 Secret, Pack 0 1 One],
           R1C_O = [Pack 0 0 One], Solver = SingleOutput\<rparr>,
          \<lparr>format = ''error AssertIsBoolean'', toResolve = []\<rparr>),
         (\<lparr>R1C_L = [Pack 0 1 Secret], R1C_R = [Pack 0 2 Secret, Pack 0 1 One],
           R1C_O = [Pack 0 0 One], Solver = SingleOutput\<rparr>,
          \<lparr>format = ''error AssertIsBoolean'', toResolve = []\<rparr>)]\<rparr>)"
  by code_simp

text \<open>
  Claim C2. \<open>Select(b, i1, i2)\<close> is claimed to return b * (i1 - i2) + i2, with
  \<open>select(1, 7, 3) = 7\<close>. With both \<open>i1\<close> and \<open>i2\<close> constants the source computes the
  difference as \<open>n1.Sub(&n2, &n1)\<close>, which is i2 - i1: the result of \<open>Select(b, 7, 3)\<close> is
  the expression -4 * b + 3, no constraint is emitted, and with the selector set to 1 its
  value is -1.
\<close>

theorem Select_constants_difference_reversed:
  "Select exampleSecret (Const 7) (Const 3) newConstraintSystem =
     Inr (\<lparr>wire = None, linExp = [Pack 0 4 Secret, Pack 0 5 One], isBoolean = False\<rparr>,
          newConstraintSystem
            \<lparr>coeffs := [0, 1, - 1, 2, - 4, 3],
             assertions :=
               [(\<lparr>R1C_L = [Pack 0 1 Secret], R1C_R = [Pack 0 2 Secret, Pack 0 1 One],
                  R1C_O = [Pack 0 0 One], Solver = SingleOutput\<rparr>,
                 \<lparr>format = ''error AssertIsBoolean'', toResolve = []\<rparr>)]\<rparr>)
   \<and> linExpValue [0, 1, - 1, 2, - 4, 3] selectorSet [Pack 0 4 Secret, Pack 0 5 One] = - 1"
  by code_simp

lemma wfCS_nth:
  assumes "wfCS cs"
  shows "4 \<le> length (coeffs cs)" "coeffs cs ! 0 = 0" "coeffs cs ! 1 = 1"
    "coeffs cs ! 2 = - 1" "coeffs cs ! 3 = 2"
proof -
  from assms have t: "take 4 (coeffs cs) = [0, 1, - 1, 2]" by (simp add: wfCS_def)
  then have "length (take 4 (coeffs cs)) = 4" by simp
  then show len: "4 \<le> length (coeffs cs)" by simp
  have nth: "coeffs cs ! i = take 4 (coeffs cs) ! i" if "i < 4" for i
    using that by simp
  show "coeffs cs ! 0 = 0" "coeffs cs ! 1 = 1" "coeffs cs ! 2 = - 1" "coeffs cs ! 3 = 2"
    by (simp_all add: nth t)
qed

lemma coeffsGrow_coeffs: "coeffsGrow cs cs' \<Longrightarrow> \<exists>ext. coeffs cs' = coeffs cs @ ext"
  by (auto simp: coeffsGrow_def)

lemma coeffsGrow_nth:
  "coeffsGrow cs cs' \<Longrightarrow> i < length (coeffs cs) \<Longrightarrow> coeffs cs' ! i = coeffs cs ! i"
  by (auto simp: coeffsGrow_def nth_append)

lemma coeffsGrow_length: "coeffsGrow cs cs' \<Longrightarrow> length (coeffs cs) \<le> length (coeffs cs')"
  by (auto simp: coeffsGrow_def)

lemma wfCS_grow: "wfCS cs \<Longrightarrow> coeffsGrow cs cs' \<Longrightarrow> wfCS cs'"
proof -
  assume wf: "wfCS cs" and g: "coeffsGrow cs cs'"
  from g obtain ext where e: "coeffs cs' = coeffs cs @ ext" by (auto simp: coeffsGrow_def)
  from wfCS_nth(1) [OF wf] have "take 4 (coeffs cs @ ext) = take 4 (coeffs cs)" by simp
  with wf e show ?thesis by (simp add: wfCS_def)
qed

lemma validLinExp_grow: "validLinExp cs l \<Longrightarrow> coeffsGrow cs cs' \<Longrightarrow> validLinExp cs' l"
  using coeffsGrow_length [of cs cs']
  by (auto simp: validLinExp_def list_all_iff)

lemma termView_grow:
  "validLinExp cs l \<Longrightarrow> coeffsGrow cs cs' \<Longrightarrow>
     map (termView (coeffs cs')) l = map (termView (coeffs cs)) l"
  by (auto simp: validLinExp_def list_all_iff termView_def coeffsGrow_nth)

lemma firstIndex_Some: "firstIndex b xs = Some i \<Longrightarrow> i < length xs \<and> xs ! i = b"
  by (induction xs arbitrary: i) (auto split: if_splits)


lemma coeffID_sem:
  assumes "wfCS cs"
  shows "\<exists>i cs'. coeffID b cs = Inr (i, cs') \<and> i < length (coeffs cs') \<and> coeffs cs' ! i = b
           \<and> coeffsGrow cs cs'"
proof -
  note n = wfCS_nth [OF assms]
  consider "b = - 1" | "b = 0" | "b = 1" | "b = 2"
    | i where "b \<notin> {- 1, 0, 1, 2}" "firstIndex b (coeffs cs) = Some i"
    | "b \<notin> {- 1, 0, 1, 2}" "firstIndex b (coeffs cs) = None"
    by (cases "firstIndex b (coeffs cs)") auto
  then show ?thesis
  proof cases
    case 1
    with n show ?thesis by (simp add: coeffID_def CoeffIdMinusOne_def)
  next
    case 2
    with n show ?thesis by (auto simp: coeffID_def CoeffIdZero_def)
  next
    case 3
    with n show ?thesis by (simp add: coeffID_def CoeffIdOne_def)
  next
    case 4
    with n show ?thesis by (simp add: coeffID_def CoeffIdTwo_def)
  next
    case 5
    with firstIndex_Some [of b "coeffs cs" i] show ?thesis by (simp add: coeffID_def)
  next
    case 6
    have "coeffsGrow cs (cs\<lparr>coeffs := coeffs cs @ [b]\<rparr>)"
      unfolding coeffsGrow_def by blast
    with 6 show ?thesis by (simp add: coeffID_def)
  qed
qed

lemma makeTerm_sem:
  assumes "wfCS cs"
  shows "\<exists>t cs'. makeTerm w c cs = Inr (t, cs') \<and> termView (coeffs cs') t = (w, c)
           \<and> CoeffID t < length (coeffs cs') \<and> coeffsGrow cs cs'"
proof -
  from coeffID_sem [OF assms, of c] obtain i cs'
    where "coeffID c cs = Inr (i, cs')" "i < length (coeffs cs')" "coeffs cs' ! i = c"
      "coeffsGrow cs cs'" by blast
  then show ?thesis
    by (simp add: makeTerm_def thenDo_def termView_def)
qed

lemma makeTerms_sem:
  assumes "wfCS cs"
  shows "\<exists>ts cs'. makeTerms ps cs = Inr (ts, cs') \<and> map (termView (coeffs cs')) ts = ps
           \<and> validLinExp cs' ts \<and> coeffsGrow cs cs'"
  using assms
proof (induction ps arbitrary: cs)
  case Nil
  then show ?case by (simp add: validLinExp_def)
next
  case (Cons p ps)
  obtain w c where p: "p = (w, c)" by (cases p)
  from makeTerm_sem [OF Cons.prems, of w c] obtain t cs1
    where t: "makeTerm w c cs = Inr (t, cs1)" "termView (coeffs cs1) t = (w, c)"
      "CoeffID t < length (coeffs cs1)" "coeffsGrow cs cs1" by blast
  have wf1: "wfCS cs1" using wfCS_grow [OF Cons.prems t(4)] .
  from Cons.IH [OF wf1] obtain ts cs2
    where ts: "makeTerms ps cs1 = Inr (ts, cs2)" "map (termView (coeffs cs2)) ts = ps"
      "validLinExp cs2 ts" "coeffsGrow cs1 cs2" by blast
  have v1: "validLinExp cs1 [t]" using t(3) by (simp add: validLinExp_def)
  have "map (termView (coeffs cs2)) [t] = map (termView (coeffs cs1)) [t]"
    using termView_grow [OF v1 ts(4)] .
  then have tv: "termView (coeffs cs2) t = (w, c)" using t(2) by simp
  have v2: "validLinExp cs2 (t # ts)"
    using validLinExp_grow [OF v1 ts(4)] ts(3) by (simp add: validLinExp_def)
  have "makeTerms (p # ps) cs = Inr (t # ts, cs2)"
    using t(1) ts(1) p by (simp add: thenDo_def)
  with tv ts(2) v2 coeffsGrow_trans [OF t(4) ts(4)] p show ?case by simp
qed

lemma unpackAll_sem:
  "validLinExp cs l \<Longrightarrow> unpackAll l cs = Inr (map (termView (coeffs cs)) l, cs)"
  by (induction l) (simp_all add: validLinExp_def thenDo_def coeffsAt_def termView_def)

lemma validLinExp_sort: "validLinExp cs (sort_key f l) = validLinExp cs l"
  by (simp add: validLinExp_def list_all_iff)

lemma reduce_sem:
  assumes "wfCS cs" "validLinExp cs l"
  shows "\<exists>l' cs'. reduce l cs = Inr (l', cs')
           \<and> map (termView (coeffs cs')) l' = reducedView (coeffs cs) l
           \<and> validLinExp cs' l' \<and> coeffsGrow cs cs'"
proof -
  have u: "unpackAll (sort_key termKey l) cs =
             Inr (map (termView (coeffs cs)) (sort_key termKey l), cs)"
    using unpackAll_sem assms(2) by (simp add: validLinExp_sort)
  from makeTerms_sem [OF assms(1), of "reducedView (coeffs cs) l"] obtain ts cs'
    where "makeTerms (reducedView (coeffs cs) l) cs = Inr (ts, cs')"
      "map (termView (coeffs cs')) ts = reducedView (coeffs cs) l"
      "validLinExp cs' ts" "coeffsGrow cs cs'" by blast
  with u show ?thesis
    by (simp add: reduce_def thenDo_def reducedView_def)
qed

lemma mulConstantTerms_sem:
  assumes "wfCS cs" "validLinExp cs l"
  shows "\<exists>l' cs'. mulConstantTerms k l cs = Inr (l', cs')
           \<and> map (termView (coeffs cs')) l' = map (\<lambda>(w, c). (w, c * k)) (map (termView (coeffs cs)) l)
           \<and> validLinExp cs' l' \<and> coeffsGrow cs cs'"
  using assms
proof (induction l arbitrary: cs)
  case Nil
  then show ?case by (simp add: validLinExp_def)
next
  case (Cons t l)
  from Cons.prems(2) have lt: "CoeffID t < length (coeffs cs)" and vl: "validLinExp cs l"
    by (simp_all add: validLinExp_def)
  from makeTerm_sem [OF Cons.prems(1), of "Wire (Vis t) (VariableID t)" "coeffs cs ! CoeffID t * k"]
  obtain t' cs1 where t': "makeTerm (Wire (Vis t) (VariableID t)) (coeffs cs ! CoeffID t * k) cs = Inr (t', cs1)"
    "termView (coeffs cs1) t' = (Wire (Vis t) (VariableID t), coeffs cs ! CoeffID t * k)"
    "CoeffID t' < length (coeffs cs1)" "coeffsGrow cs cs1" by blast
  have wf1: "wfCS cs1" using wfCS_grow [OF Cons.prems(1) t'(4)] .
  have vl1: "validLinExp cs1 l" using validLinExp_grow [OF vl t'(4)] .
  from Cons.IH [OF wf1 vl1] obtain l' cs2
    where l': "mulConstantTerms k l cs1 = Inr (l', cs2)"
      "map (termView (coeffs cs2)) l' = map (\<lambda>(w, c). (w, c * k)) (map (termView (coeffs cs1)) l)"
      "validLinExp cs2 l'" "coeffsGrow cs1 cs2" by blast
  have v1: "validLinExp cs1 [t']" using t'(3) by (simp add: validLinExp_def)
  have "map (termView (coeffs cs2)) [t'] = map (termView (coeffs cs1)) [t']"
    using termView_grow [OF v1 l'(4)] .
  then have tv: "termView (coeffs cs2) t' = (Wire (Vis t) (VariableID t), coeffs cs ! CoeffID t * k)"
    using t'(2) by simp
  have v2: "validLinExp cs2 (t' # l')"
    using validLinExp_grow [OF v1 l'(4)] l'(3) by (simp add: validLinExp_def)
  have run: "mulConstantTerms k (t # l) cs = Inr (t' # l', cs2)"
    using lt t'(1) l'(1) by (simp add: thenDo_def coeffsAt_def)
  have "map (termView (coeffs cs1)) l = map (termView (coeffs cs)) l"
    using termView_grow [OF vl t'(4)] .
  with l'(2) have tl: "map (termView (coeffs cs2)) l' =
      map (\<lambda>(w, c). (w, c * k)) (map (termView (coeffs cs)) l)"
    by simp
  have hd: "termView (coeffs cs) t = (Wire (Vis t) (VariableID t), coeffs cs ! CoeffID t)"
    by (simp add: termView_def)
  from run tv tl hd v2 coeffsGrow_trans [OF t'(4) l'(4)] show ?case
    by simp
qed



lemma termKey_wireKey: "termKey t = wireKey (fst (termView tab t))"
  by (simp add: termKey_def wireKey_def termView_def)

lemma map_insort_key:
  "map f (insort_key (\<lambda>x. g (f x)) x xs) = insort_key g (f x) (map f xs)"
  by (induction xs) simp_all

lemma map_sort_key: "map f (sort_key (\<lambda>x. g (f x)) xs) = sort_key g (map f xs)"
  by (induction xs) (simp_all add: map_insort_key)

lemma reducedView_normalForm: "reducedView tab l = normalForm (map (termView tab) l)"
proof -
  have "termKey = (\<lambda>t. wireKey (fst (termView tab t)))"
    by (rule ext) (rule termKey_wireKey)
  then have "map (termView tab) (sort_key termKey l) =
      sort_key (\<lambda>p. wireKey (fst p)) (map (termView tab) l)"
    using map_sort_key [of "termView tab" "\<lambda>p. wireKey (fst p)" l] by simp
  then show ?thesis by (simp add: reducedView_def normalForm_def)
qed

lemma coeffOf_Nil [simp]: "coeffOf [] w = 0"
  by (simp add: coeffOf_def)

lemma coeffOf_Cons [simp]: "coeffOf (p # ps) w = (if fst p = w then snd p else 0) + coeffOf ps w"
  by (simp add: coeffOf_def)

lemma coeffOf_append [simp]: "coeffOf (ps @ qs) w = coeffOf ps w + coeffOf qs w"
  by (simp add: coeffOf_def)













lemma foldRuns_id: "sorted_wrt keyLess ps \<Longrightarrow> foldRuns ps = ps"
  by (induction ps rule: foldRuns.induct) auto

lemma normalForm_id:
  assumes "sorted_wrt keyLess ps" "\<forall>p \<in> set ps. snd p \<noteq> 0"
  shows "normalForm ps = ps"
proof -
  from assms(1) have "sorted_wrt (<) (map (\<lambda>p. wireKey (fst p)) ps)"
    by (simp add: sorted_wrt_map)
  then have "sorted (map (\<lambda>p. wireKey (fst p)) ps)"
    by (simp add: strict_sorted_iff)
  then have "sort_key (\<lambda>p. wireKey (fst p)) ps = ps"
    by (rule sort_key_id_if_sorted)
  with assms show ?thesis
    by (auto simp: normalForm_def foldRuns_id filter_id_conv)
qed

lemma negateLinExp_mulConstantTerms: "negateLinExp l = mulConstantTerms (- 1) l"
  by (induction l) simp_all

lemma validOperand_grow: "validOperand cs i \<Longrightarrow> coeffsGrow cs cs' \<Longrightarrow> validOperand cs' i"
  by (cases i) (auto intro: validLinExp_grow)

lemma operandView_grow:
  "validOperand cs i \<Longrightarrow> coeffsGrow cs cs' \<Longrightarrow>
     operandView (coeffs cs') i = operandView (coeffs cs) i"
proof (cases i)
  case (Var v)
  assume "validOperand cs i" "coeffsGrow cs cs'"
  with Var termView_grow [of cs "linExp (completeDanglingVariable v)" cs'] show ?thesis
    by simp
next
  case (Const k)
  then show ?thesis by simp
qed

lemma mulConstant_sem:
  assumes "wfCS cs" "validLinExp cs (linExp v)"
  shows "\<exists>r cs'. mulConstant k v cs = Inr (r, cs') \<and> wire r = None \<and> \<not> isBoolean r
           \<and> map (termView (coeffs cs')) (linExp r) =
               map (\<lambda>(w, c). (w, c * k)) (map (termView (coeffs cs)) (linExp v))
           \<and> validLinExp cs' (linExp r) \<and> coeffsGrow cs cs'"
proof -
  from mulConstantTerms_sem [OF assms, of k] obtain l' cs'
    where "mulConstantTerms k (linExp v) cs = Inr (l', cs')"
      "map (termView (coeffs cs')) l' =
         map (\<lambda>(w, c). (w, c * k)) (map (termView (coeffs cs)) (linExp v))"
      "validLinExp cs' l'" "coeffsGrow cs cs'" by blast
  then show ?thesis by (simp add: mulConstant_def thenDo_def)
qed

lemma one_valid: "wfCS cs \<Longrightarrow> validLinExp cs (linExp getOneVariable)"
  using wfCS_nth(1) [of cs] by (simp add: validLinExp_def getOneVariable_def CoeffIdOne_def)

lemma one_view: "wfCS cs \<Longrightarrow> map (termView (coeffs cs)) (linExp getOneVariable) = [(Wire One 0, 1)]"
  using wfCS_nth(3) [of cs] by (simp add: termView_def getOneVariable_def CoeffIdOne_def)

lemma Constant_sem:
  assumes "wfCS cs" "validOperand cs i"
  shows "\<exists>v cs'. Constant i cs = Inr (v, cs')
           \<and> map (termView (coeffs cs')) (linExp v) = operandView (coeffs cs) i
           \<and> validLinExp cs' (linExp v) \<and> coeffsGrow cs cs'"
proof (cases i)
  case (Var t)
  with assms show ?thesis by simp
next
  case (Const k)
  show ?thesis
  proof (cases "k = 1")
    case True
    with Const one_valid [OF assms(1)] one_view [OF assms(1)] show ?thesis by simp
  next
    case False
    from mulConstant_sem [OF assms(1) one_valid [OF assms(1)], of k] obtain r cs'
      where "mulConstant k getOneVariable cs = Inr (r, cs')"
        "map (termView (coeffs cs')) (linExp r) =
           map (\<lambda>(w, c). (w, c * k)) (map (termView (coeffs cs)) (linExp getOneVariable))"
        "validLinExp cs' (linExp r)" "coeffsGrow cs cs'" by blast
    with False Const one_view [OF assms(1)] show ?thesis by simp
  qed
qed

lemma addOperand_sem:
  assumes "wfCS cs" "validOperand cs i" "validLinExp cs acc"
  shows "\<exists>l cs'. addOperand acc i cs = Inr (l, cs')
           \<and> map (termView (coeffs cs')) l =
               map (termView (coeffs cs)) acc @ operandView (coeffs cs) i
           \<and> validLinExp cs' l \<and> coeffsGrow cs cs'"
proof (cases i)
  case (Var t)
  with assms show ?thesis by (simp add: validLinExp_def)
next
  case (Const k)
  from Constant_sem [OF assms(1,2)] Const obtain v cs'
    where v: "Constant (Const k) cs = Inr (v, cs')"
      "map (termView (coeffs cs')) (linExp v) = operandView (coeffs cs) i"
      "validLinExp cs' (linExp v)" "coeffsGrow cs cs'" by blast
  have "addOperand acc i cs = Inr (acc @ linExp v, cs')"
    using v(1) Const by (simp add: thenDo_def del: Constant.simps)
  moreover have "map (termView (coeffs cs')) acc = map (termView (coeffs cs)) acc"
    using termView_grow [OF assms(3) v(4)] .
  moreover have "validLinExp cs' (acc @ linExp v)"
    using validLinExp_grow [OF assms(3) v(4)] v(3) by (simp add: validLinExp_def)
  ultimately show ?thesis using v(2,4) by simp
qed

lemma Add_sem:
  assumes "wfCS cs" "validOperand cs i1" "validOperand cs i2"
  shows "\<exists>r cs'. Add i1 i2 [] cs = Inr (r, cs') \<and> wire r = None \<and> \<not> isBoolean r
           \<and> map (termView (coeffs cs')) (linExp r) =
               normalForm (operandView (coeffs cs) i1 @ operandView (coeffs cs) i2)
           \<and> validLinExp cs' (linExp r) \<and> coeffsGrow cs cs'"
proof -
  have v0: "validLinExp cs []" by (simp add: validLinExp_def)
  from addOperand_sem [OF assms(1,2) v0] obtain l1 cs1
    where 1: "addOperand [] i1 cs = Inr (l1, cs1)"
      "map (termView (coeffs cs1)) l1 = operandView (coeffs cs) i1"
      "validLinExp cs1 l1" "coeffsGrow cs cs1" by auto
  have wf1: "wfCS cs1" using wfCS_grow [OF assms(1) 1(4)] .
  have vo2: "validOperand cs1 i2" using validOperand_grow [OF assms(3) 1(4)] .
  from addOperand_sem [OF wf1 vo2 1(3)] obtain l2 cs2
    where 2: "addOperand l1 i2 cs1 = Inr (l2, cs2)"
      "map (termView (coeffs cs2)) l2 = map (termView (coeffs cs1)) l1 @ operandView (coeffs cs1) i2"
      "validLinExp cs2 l2" "coeffsGrow cs1 cs2" by blast
  have wf2: "wfCS cs2" using wfCS_grow [OF wf1 2(4)] .
  from reduce_sem [OF wf2 2(3)] obtain l' cs'
    where 3: "reduce l2 cs2 = Inr (l', cs')"
      "map (termView (coeffs cs')) l' = reducedView (coeffs cs2) l2"
      "validLinExp cs' l'" "coeffsGrow cs2 cs'" by blast
  have run: "Add i1 i2 [] cs = Inr (\<lparr>wire = None, linExp = l', isBoolean = False\<rparr>, cs')"
    using 1(1) 2(1) 3(1) by (simp add: Add_def thenDo_def)
  have "map (termView (coeffs cs2)) l2 = operandView (coeffs cs) i1 @ operandView (coeffs cs) i2"
    using 2(2) 1(2) operandView_grow [OF assms(3) 1(4)] by simp
  then have "map (termView (coeffs cs')) l' =
      normalForm (operandView (coeffs cs) i1 @ operandView (coeffs cs) i2)"
    using 3(2) by (simp add: reducedView_normalForm)
  with run 3(3) coeffsGrow_trans [OF coeffsGrow_trans [OF 1(4) 2(4)] 3(4)] show ?thesis
    by simp
qed

lemma cDV_nonempty: "linExp v \<noteq> [] \<Longrightarrow> completeDanglingVariable v = v"
  by (simp add: completeDanglingVariable_def split: option.splits)

lemma cDV_None: "wire v = None \<Longrightarrow> completeDanglingVariable v = v"
  by (simp add: completeDanglingVariable_def)

lemma cDV_internal [simp]: "completeDanglingVariable (internalVariable n) = internalVariable n"
  by (simp add: cDV_nonempty internalVariable_def)

lemma Sub_one_internal:
  assumes "wfCS cs"
  shows "Sub (Const 1) (Var (internalVariable n)) cs =
           Inr (\<lparr>wire = None,
                 linExp = [Pack n CoeffIdMinusOne Internal, Pack 0 CoeffIdOne One],
                 isBoolean = False\<rparr>, cs)"
proof -
  note n = wfCS_nth [OF assms]
  have neg: "negateLinExp [Pack n CoeffIdOne Internal] cs =
      Inr ([Pack n CoeffIdMinusOne Internal], cs)"
    using n by (simp add: thenDo_def coeffsAt_def makeTerm_def coeffID_def CoeffIdOne_def)
  have srt: "sort_key termKey [Pack 0 CoeffIdOne One, Pack n CoeffIdMinusOne Internal] =
      [Pack n CoeffIdMinusOne Internal, Pack 0 CoeffIdOne One]"
    by (simp add: termKey_def)
  have red: "reduce [Pack 0 CoeffIdOne One, Pack n CoeffIdMinusOne Internal] cs =
      Inr ([Pack n CoeffIdMinusOne Internal, Pack 0 CoeffIdOne One], cs)"
    unfolding reduce_def srt using n
    by (simp add: thenDo_def coeffsAt_def makeTerm_def coeffID_def CoeffIdOne_def
        CoeffIdMinusOne_def)
  show ?thesis
    using neg red
    by (simp add: Sub_def thenDo_def getOneVariable_def internalVariable_def cDV_nonempty)
qed

lemma Constant_zero:
  assumes "wfCS cs"
  shows "Constant (Const 0) cs =
           Inr (\<lparr>wire = None, linExp = [Pack 0 CoeffIdZero One], isBoolean = False\<rparr>, cs)"
  using wfCS_nth [OF assms]
  by (simp add: mulConstant_def getOneVariable_def thenDo_def coeffsAt_def makeTerm_def
      coeffID_def CoeffIdOne_def)

lemma AssertIsBoolean_internal:
  assumes "wfCS cs"
  shows "AssertIsBoolean (internalVariable n) cs =
           Inr ((), cs\<lparr>assertions := assertions cs @ [booleanAssertion n]\<rparr>)"
proof -
  have nb: "\<not> isBoolean (internalVariable n)" by (simp add: internalVariable_def)
  show ?thesis
    unfolding AssertIsBoolean_def Let_def cDV_internal
    using nb Sub_one_internal [OF assms, of n] Constant_zero [OF assms]
    by (simp add: thenDo_def addAssertion_def newR1C_def booleanAssertion_def getCallStack_def
        internalVariable_def del: Constant.simps)
qed

lemma wfCS_fields [simp]:
  "wfCS (cs\<lparr>assertions := x\<rparr>) = wfCS cs" "wfCS (cs\<lparr>nbInternal := y\<rparr>) = wfCS cs"
  "wfCS (cs\<lparr>constraints := z\<rparr>) = wfCS cs"
  by (simp_all add: wfCS_def)

text \<open>The flag of \<open>AssertIsBoolean\<close> does not reach the caller: on any constraint system, two
  calls on the Variable of an internal wire append its assertion twice.\<close>

lemma AssertIsBoolean_internal_twice:
  assumes "wfCS cs"
  shows "thenDo (AssertIsBoolean (internalVariable n)) (\<lambda>u. AssertIsBoolean (internalVariable n)) cs =
           Inr ((), cs\<lparr>assertions := assertions cs @ [booleanAssertion n, booleanAssertion n]\<rparr>)"
proof -
  let ?cs1 = "cs\<lparr>assertions := assertions cs @ [booleanAssertion n]\<rparr>"
  have wf1: "wfCS ?cs1" using assms by simp
  show ?thesis
    using AssertIsBoolean_internal [OF assms, of n] AssertIsBoolean_internal [OF wf1, of n]
    by (simp add: thenDo_def)
qed

lemma newInternalVariable_eq:
  "newInternalVariable cs = Inr (internalVariable (nbInternal cs), cs\<lparr>nbInternal := nbInternal cs + 1\<rparr>)"
  by (simp add: newInternalVariable_def internalVariable_def Let_def)

lemma toBinaryAlloc_eq:
  assumes "wfCS cs"
  shows "toBinaryAlloc n cs =
           Inr (map internalVariable [nbInternal cs..<nbInternal cs + n],
                cs\<lparr>nbInternal := nbInternal cs + n,
                   assertions := assertions cs @
                     map booleanAssertion [nbInternal cs..<nbInternal cs + n]\<rparr>)"
  using assms
proof (induction n arbitrary: cs)
  case 0
  then show ?case by simp
next
  case (Suc n)
  let ?k = "nbInternal cs"
  let ?cs1 = "cs\<lparr>nbInternal := ?k + 1\<rparr>"
  let ?cs2 = "?cs1\<lparr>assertions := assertions ?cs1 @ [booleanAssertion ?k]\<rparr>"
  have a: "AssertIsBoolean (internalVariable ?k) ?cs1 = Inr ((), ?cs2)"
    using AssertIsBoolean_internal [of ?cs1 ?k] Suc.prems by simp
  have wf2: "wfCS ?cs2" using Suc.prems by simp
  have up: "[?k..<Suc (?k + n)] = ?k # [Suc ?k..<Suc (?k + n)]"
    by (simp add: upt_conv_Cons)
  show ?case
    using Suc.IH [OF wf2] a
    by (simp add: thenDo_def newInternalVariable_eq up del: upt_Suc)
qed

lemma binaryView_Suc:
  "binaryView k (Suc n) = binaryView k n @ [(Wire Internal (k + n), 2 ^ n)]"
  by (simp add: binaryView_def)

lemma binaryView_normal: "normalForm (binaryView k n) = binaryView k n"
proof (rule normalForm_id)
  have "sorted_wrt (\<lambda>a b. keyLess (Wire Internal (k + a), (2::int) ^ a)
      (Wire Internal (k + b), (2::int) ^ b)) [0..<n]"
    by (rule sorted_wrt_mono_rel [OF _ sorted_wrt_upt]) (simp add: wireKey_def)
  then show "sorted_wrt keyLess (binaryView k n)"
    by (simp add: binaryView_def sorted_wrt_map)
  show "\<forall>p \<in> set (binaryView k n). snd p \<noteq> 0"
    by (auto simp: binaryView_def)
qed

lemma internal_valid: "wfCS cs \<Longrightarrow> validLinExp cs (linExp (internalVariable n))"
  using wfCS_nth(1) [of cs] by (simp add: validLinExp_def internalVariable_def CoeffIdOne_def)

lemma internal_view:
  "wfCS cs \<Longrightarrow> map (termView (coeffs cs)) (linExp (internalVariable n)) = [(Wire Internal n, 1)]"
  using wfCS_nth(3) [of cs] by (simp add: termView_def internalVariable_def CoeffIdOne_def)

lemma toBinarySum_sem:
  assumes "wfCS cs" "validLinExp cs (linExp v)" "wire v = None"
    "map (termView (coeffs cs)) (linExp v) = binaryView k j"
  shows "\<exists>v' cs'. toBinarySum (map internalVariable [k + j..<k + j + m]) (2 ^ j) v cs = Inr (v', cs')
           \<and> map (termView (coeffs cs')) (linExp v') = binaryView k (j + m)
           \<and> coeffsGrow cs cs'"
  using assms
proof (induction m arbitrary: j v cs)
  case 0
  then show ?case by simp
next
  case (Suc m)
  let ?r = "internalVariable (k + j)"
  have iv: "validLinExp cs (linExp ?r)" using internal_valid [OF Suc.prems(1)] .
  from mulConstant_sem [OF Suc.prems(1) iv, of "2 ^ j"]
  obtain nv cs1 where nv: "mulConstant (2 ^ j) ?r cs = Inr (nv, cs1)" "wire nv = None"
    "map (termView (coeffs cs1)) (linExp nv) =
       map (\<lambda>(w, c). (w, c * 2 ^ j)) (map (termView (coeffs cs)) (linExp ?r))"
    "validLinExp cs1 (linExp nv)" "coeffsGrow cs cs1" by blast
  have nvv: "map (termView (coeffs cs1)) (linExp nv) = [(Wire Internal (k + j), 2 ^ j)]"
    using nv(3) internal_view [OF Suc.prems(1)] by simp
  have wf1: "wfCS cs1" using wfCS_grow [OF Suc.prems(1) nv(5)] .
  have vv1: "validLinExp cs1 (linExp v)" using validLinExp_grow [OF Suc.prems(2) nv(5)] .
  have vw1: "map (termView (coeffs cs1)) (linExp v) = binaryView k j"
    using termView_grow [OF Suc.prems(2) nv(5)] Suc.prems(4) by simp
  have o1: "validOperand cs1 (Var v)" using vv1 Suc.prems(3) by (simp add: cDV_None)
  have o2: "validOperand cs1 (Var nv)" using nv(2,4) by (simp add: cDV_None)
  from Add_sem [OF wf1 o1 o2] obtain v2 cs2
    where v2: "Add (Var v) (Var nv) [] cs1 = Inr (v2, cs2)" "wire v2 = None"
      "map (termView (coeffs cs2)) (linExp v2) =
         normalForm (operandView (coeffs cs1) (Var v) @ operandView (coeffs cs1) (Var nv))"
      "validLinExp cs2 (linExp v2)" "coeffsGrow cs1 cs2" by blast
  have "operandView (coeffs cs1) (Var v) @ operandView (coeffs cs1) (Var nv) =
      binaryView k (Suc j)"
    using vw1 nvv Suc.prems(3) nv(2) by (simp add: cDV_None binaryView_Suc)
  then have v2v: "map (termView (coeffs cs2)) (linExp v2) = binaryView k (Suc j)"
    using v2(3) by (simp add: binaryView_normal)
  have wf2: "wfCS cs2" using wfCS_grow [OF wf1 v2(5)] .
  from Suc.IH [OF wf2 v2(4) v2(2) v2v] obtain v' cs'
    where v': "toBinarySum (map internalVariable [k + Suc j..<k + Suc j + m]) (2 ^ Suc j) v2 cs2
                 = Inr (v', cs')"
      "map (termView (coeffs cs')) (linExp v') = binaryView k (Suc j + m)"
      "coeffsGrow cs2 cs'" by blast
  have up: "[k + j..<k + j + Suc m] = (k + j) # [k + Suc j..<k + Suc j + m]"
    by (simp add: upt_conv_Cons)
  have "toBinarySum (map internalVariable [k + j..<k + j + Suc m]) (2 ^ j) v cs = Inr (v', cs')"
    unfolding up using nv(1) v2(1) v'(1)
    by (simp add: thenDo_def Mul_nil mult.commute)
  with v'(2) coeffsGrow_trans [OF coeffsGrow_trans [OF nv(5) v2(5)] v'(3)] show ?case
    by simp
qed

text \<open>
  Claim C3. For every Variable \<open>a\<close> and every \<open>n \<ge> 1\<close>, on a constraint system whose
  coefficient table starts with the reserved values, \<open>ToBinary(a, n)\<close> allocates the \<open>n\<close>
  next internal wires b0, ..., b(n-1), appends one boolean assertion b * (1 - b) = 0 per
  bit, in order, appends exactly one constraint R1C(sum of 2^i * b_i, 1, a) with the hint
  "binary-decomposition", and returns the bits least significant first: the i-th Variable
  returned is the wire that has the coefficient 2^i in the constraint.
\<close>

theorem ToBinary_bits:
  assumes "wfCS cs" "1 \<le> n"
  shows "\<exists>l cs'. ToBinary a (int n) cs =
             Inr (map internalVariable [nbInternal cs..<nbInternal cs + n], cs')
           \<and> nbInternal cs' = nbInternal cs + n
           \<and> assertions cs' =
               assertions cs @ map booleanAssertion [nbInternal cs..<nbInternal cs + n]
           \<and> constraints cs' = constraints cs @
               [\<lparr>R1C_L = l, R1C_R = [Pack 0 CoeffIdOne One],
                 R1C_O = linExp (completeDanglingVariable a), Solver = BinaryDec\<rparr>]
           \<and> map (termView (coeffs cs')) l = binaryView (nbInternal cs) n
           \<and> (\<exists>ext. coeffs cs' = coeffs cs @ ext)"
proof -
  let ?k = "nbInternal cs"
  let ?csA = "cs\<lparr>nbInternal := ?k + n,
                   assertions := assertions cs @ map booleanAssertion [?k..<?k + n]\<rparr>"
  from assms(2) obtain m where n: "n = Suc m" by (cases n) auto
  have alloc: "toBinaryAlloc n cs = Inr (map internalVariable [?k..<?k + n], ?csA)"
    using toBinaryAlloc_eq [OF assms(1)] .
  have bits: "map internalVariable [?k..<?k + n] =
      internalVariable ?k # map internalVariable [?k + 1..<?k + 1 + m]"
    unfolding n by (simp add: upt_conv_Cons del: upt_Suc)
  have wfA: "wfCS ?csA" using assms(1) by simp
  have iv: "validLinExp ?csA (linExp (internalVariable ?k))" using internal_valid [OF wfA] .
  from mulConstant_sem [OF wfA iv, of 1]
  obtain v0 cs0 where v0: "mulConstant 1 (internalVariable ?k) ?csA = Inr (v0, cs0)"
    "wire v0 = None"
    "map (termView (coeffs cs0)) (linExp v0) =
       map (\<lambda>(w, c). (w, c * 1)) (map (termView (coeffs ?csA)) (linExp (internalVariable ?k)))"
    "validLinExp cs0 (linExp v0)" "coeffsGrow ?csA cs0" by blast
  have v0v: "map (termView (coeffs cs0)) (linExp v0) = binaryView ?k 1"
    using v0(3) internal_view [OF wfA, of ?k] by (simp add: binaryView_def)
  have wf0: "wfCS cs0" using wfCS_grow [OF wfA v0(5)] .
  from toBinarySum_sem [OF wf0 v0(4) v0(2) v0v, of m]
  obtain v' cs2 where v': "toBinarySum (map internalVariable [?k + 1..<?k + 1 + m]) 2 v0 cs0
        = Inr (v', cs2)"
    "map (termView (coeffs cs2)) (linExp v') = binaryView ?k (1 + m)"
    "coeffsGrow cs0 cs2" by auto
  have g: "coeffsGrow ?csA cs2" using coeffsGrow_trans [OF v0(5) v'(3)] .
  let ?c = "\<lparr>R1C_L = linExp v', R1C_R = [Pack 0 CoeffIdOne One],
             R1C_O = linExp (completeDanglingVariable a), Solver = BinaryDec\<rparr>"
  let ?cs' = "cs2\<lparr>constraints := constraints cs2 @ [?c]\<rparr>"
  have run: "ToBinary a (int n) cs = Inr (map internalVariable [?k..<?k + n], ?cs')"
    unfolding ToBinary_def Let_def
    using alloc v0(1) v'(1)
    by (simp add: thenDo_def bits Mul_nil appendConstraint_def newR1C_def getOneVariable_def
        del: upt_Suc)
  from coeffsGrow_coeffs [OF g] obtain ext where ext: "coeffs cs2 = coeffs cs @ ext"
    by auto
  have "nbInternal ?cs' = ?k + n"
    "assertions ?cs' = assertions cs @ map booleanAssertion [?k..<?k + n]"
    "constraints ?cs' = constraints cs @ [?c]"
    using coeffsGrow_fields [OF g] by simp_all
  moreover have "map (termView (coeffs ?cs')) (linExp v') = binaryView ?k n"
    using v'(2) n by simp
  moreover have "\<exists>ext. coeffs ?cs' = coeffs cs @ ext"
    using ext by simp
  ultimately show ?thesis using run by blast
qed

lemma ToBinary_example:
  "ToBinary exampleSecret 3 newConstraintSystem =
     Inr (map internalVariable [0..<3],
          newConstraintSystem
            \<lparr>coeffs := [0, 1, - 1, 2, 4], nbInternal := 3,
             constraints :=
               [\<lparr>R1C_L = [Pack 0 1 Internal, Pack 1 3 Internal, Pack 2 4 Internal],
                 R1C_R = [Pack 0 1 One], R1C_O = [Pack 0 1 Secret], Solver = BinaryDec\<rparr>],
             assertions := map booleanAssertion [0..<3]\<rparr>)"
  by code_simp

theorem ToBinary_bits_witness:
  "wfCS newConstraintSystem \<and> (1::nat) \<le> 3
   \<and> (\<exists>l cs'. ToBinary exampleSecret (int 3) newConstraintSystem =
             Inr (map internalVariable
                    [nbInternal newConstraintSystem..<nbInternal newConstraintSystem + 3], cs')
           \<and> nbInternal cs' = nbInternal newConstraintSystem + 3
           \<and> assertions cs' = assertions newConstraintSystem @
               map booleanAssertion
                 [nbInternal newConstraintSystem..<nbInternal newConstraintSystem + 3]
           \<and> constraints cs' = constraints newConstraintSystem @
               [\<lparr>R1C_L = l, R1C_R = [Pack 0 CoeffIdOne One],
                 R1C_O = linExp (completeDanglingVariable exampleSecret),
                 Solver = BinaryDec\<rparr>]
           \<and> map (termView (coeffs cs')) l = binaryView (nbInternal newConstraintSystem) 3
           \<and> (\<exists>ext. coeffs cs' = coeffs newConstraintSystem @ ext))"
proof -
  have wf: "wfCS newConstraintSystem" by (simp add: wfCS_def newConstraintSystem_def)
  have le: "(1::nat) \<le> 3" by simp
  from ToBinary_bits [OF wf le, of exampleSecret] wf le show ?thesis
    by blast
qed



lemma operandState_Var [simp]: "operandState (Var t) cs = cs"
  by (simp add: operandState_def)




lemma unpackAll_invalid: "\<not> validLinExp cs l \<Longrightarrow> unpackAll l cs = Inl IndexOutOfRange"
proof (induction l)
  case Nil
  then show ?case by (simp add: validLinExp_def)
next
  case (Cons t l)
  show ?case
  proof (cases "CoeffID t < length (coeffs cs)")
    case True
    with Cons.prems have "\<not> validLinExp cs l" by (simp add: validLinExp_def)
    with Cons.IH True show ?thesis by (simp add: thenDo_def coeffsAt_def)
  next
    case False
    then show ?thesis by (simp add: thenDo_def coeffsAt_def)
  qed
qed

lemma reduce_invalid: "\<not> validLinExp cs l \<Longrightarrow> reduce l cs = Inl IndexOutOfRange"
  by (simp add: reduce_def thenDo_def unpackAll_invalid validLinExp_sort)












lemma Add_example:
  "Add (Const 5) (Var exampleSecret) [] newConstraintSystem =
     Inr (\<lparr>wire = None, linExp = [Pack 0 1 Secret, Pack 0 4 One], isBoolean = False\<rparr>,
          newConstraintSystem\<lparr>coeffs := [0, 1, - 1, 2, 5]\<rparr>)"
  "Add (Var exampleSecret) (Const 5) [] newConstraintSystem =
     Inr (\<lparr>wire = None, linExp = [Pack 0 1 Secret, Pack 0 4 One], isBoolean = False\<rparr>,
          newConstraintSystem\<lparr>coeffs := [0, 1, - 1, 2, 5]\<rparr>)"
  "Add (Const 5) (Const 7) [] newConstraintSystem =
     Inr (\<lparr>wire = None, linExp = [Pack 0 6 One], isBoolean = False\<rparr>,
          newConstraintSystem\<lparr>coeffs := [0, 1, - 1, 2, 5, 7, 12]\<rparr>)"
  "Add (Const 7) (Const 5) [] newConstraintSystem =
     Inr (\<lparr>wire = None, linExp = [Pack 0 6 One], isBoolean = False\<rparr>,
          newConstraintSystem\<lparr>coeffs := [0, 1, - 1, 2, 7, 5, 12]\<rparr>)"
  by code_simp+


lemma mul_sem:
  "\<exists>z cs1 c. mul (Var x) (Var y) cs = Inr (z, cs1) \<and> coeffs cs1 = coeffs cs
     \<and> constraints cs1 = constraints cs @ [c]
     \<and> (\<forall>p w. r1cHolds p (coeffs cs) w c \<longrightarrow>
           varValue (coeffs cs) w z mod p =
             (varValue (coeffs cs) w x * varValue (coeffs cs) w y) mod p)"
  by (simp add: mul_Var_Var r1cHolds_def varValue_def cDV_nonempty)

lemma square_cong:
  fixes x A :: int
  assumes "x mod p = A ^ e mod p"
  shows "(x * x) mod p = A ^ (2 * e) mod p"
proof -
  have "(x * x) mod p = (A ^ e * A ^ e) mod p"
    using assms by (rule mod_mult_cong [OF _ assms])
  then show ?thesis by (simp add: power_add mult_2)
qed

lemma times_cong:
  fixes x A :: int
  assumes "x mod p = A ^ e mod p"
  shows "(x * A) mod p = A ^ (e + 1) mod p"
proof -
  have "(x * A) mod p = (A ^ e * A) mod p"
    using assms by (rule mod_mult_cong) simp
  then show ?thesis by (simp add: mult.commute)
qed

lemma isZeroLoop_sem:
  "\<exists>res' cs' new. isZeroLoop expo a j res cs = Inr (res', cs') \<and> coeffs cs' = coeffs cs
     \<and> constraints cs' = constraints cs @ new
     \<and> (\<forall>p w e. list_all (r1cHolds p (coeffs cs) w) new
           \<and> varValue (coeffs cs) w res mod p = varValue (coeffs cs) w a ^ e mod p \<longrightarrow>
           varValue (coeffs cs) w res' mod p =
             varValue (coeffs cs) w a ^ loopExp expo j e mod p)"
proof (induction j arbitrary: res cs)
  case 0
  show ?case by simp
next
  case (Suc j)
  from mul_sem [of res res cs] obtain z1 cs1 c1
    where 1: "mul (Var res) (Var res) cs = Inr (z1, cs1)" "coeffs cs1 = coeffs cs"
      "constraints cs1 = constraints cs @ [c1]"
      "\<And>p w. r1cHolds p (coeffs cs) w c1 \<Longrightarrow>
         varValue (coeffs cs) w z1 mod p =
           (varValue (coeffs cs) w res * varValue (coeffs cs) w res) mod p"
    by blast
  show ?case
  proof (cases "bit expo (Suc j)")
    case True
    from mul_sem [of z1 a cs1] obtain z2 cs2 c2
      where 2: "mul (Var z1) (Var a) cs1 = Inr (z2, cs2)" "coeffs cs2 = coeffs cs1"
        "constraints cs2 = constraints cs1 @ [c2]"
        "\<And>p w. r1cHolds p (coeffs cs1) w c2 \<Longrightarrow>
           varValue (coeffs cs1) w z2 mod p =
             (varValue (coeffs cs1) w z1 * varValue (coeffs cs1) w a) mod p"
      by blast
    from Suc.IH [of z2 cs2] obtain res' cs' new
      where 3: "isZeroLoop expo a j z2 cs2 = Inr (res', cs')" "coeffs cs' = coeffs cs2"
        "constraints cs' = constraints cs2 @ new"
        "\<And>p w e. list_all (r1cHolds p (coeffs cs2) w) new \<Longrightarrow>
           varValue (coeffs cs2) w z2 mod p = varValue (coeffs cs2) w a ^ e mod p \<Longrightarrow>
           varValue (coeffs cs2) w res' mod p =
             varValue (coeffs cs2) w a ^ loopExp expo j e mod p"
      by blast
    have run: "isZeroLoop expo a (Suc j) res cs = Inr (res', cs')"
      using True 1(1) 2(1) 3(1) by (simp add: thenDo_def Mul_nil)
    have cons: "constraints cs' = constraints cs @ (c1 # c2 # new)"
      using 1(3) 2(3) 3(3) by simp
    have val: "varValue (coeffs cs) w res' mod p =
        varValue (coeffs cs) w a ^ loopExp expo (Suc j) e mod p"
      if h: "list_all (r1cHolds p (coeffs cs) w) (c1 # c2 # new)"
        and r: "varValue (coeffs cs) w res mod p = varValue (coeffs cs) w a ^ e mod p"
      for p w e
    proof -
      from h have h1: "r1cHolds p (coeffs cs) w c1" and h2: "r1cHolds p (coeffs cs1) w c2"
        and h3: "list_all (r1cHolds p (coeffs cs2) w) new"
        using 1(2) 2(2) by simp_all
      have v1: "varValue (coeffs cs) w z1 mod p = varValue (coeffs cs) w a ^ (2 * e) mod p"
        using 1(4) [OF h1] square_cong [OF r] by simp
      have "varValue (coeffs cs) w z2 mod p =
          (varValue (coeffs cs) w z1 * varValue (coeffs cs) w a) mod p"
        using 2(4) [OF h2] 1(2) by simp
      then have v2: "varValue (coeffs cs) w z2 mod p =
          varValue (coeffs cs) w a ^ (2 * e + 1) mod p"
        using times_cong [OF v1] by simp
      from 3(4) [OF h3, of "2 * e + 1"] v2 1(2) 2(2) True show ?thesis by simp
    qed
    from run cons val 3(2) 2(2) 1(2) show ?thesis by (metis (no_types, lifting))
  next
    case False
    from Suc.IH [of z1 cs1] obtain res' cs' new
      where 3: "isZeroLoop expo a j z1 cs1 = Inr (res', cs')" "coeffs cs' = coeffs cs1"
        "constraints cs' = constraints cs1 @ new"
        "\<And>p w e. list_all (r1cHolds p (coeffs cs1) w) new \<Longrightarrow>
           varValue (coeffs cs1) w z1 mod p = varValue (coeffs cs1) w a ^ e mod p \<Longrightarrow>
           varValue (coeffs cs1) w res' mod p =
             varValue (coeffs cs1) w a ^ loopExp expo j e mod p"
      by blast
    have run: "isZeroLoop expo a (Suc j) res cs = Inr (res', cs')"
      using False 1(1) 3(1) by (simp add: thenDo_def Mul_nil)
    have cons: "constraints cs' = constraints cs @ (c1 # new)"
      using 1(3) 3(3) by simp
    have val: "varValue (coeffs cs) w res' mod p =
        varValue (coeffs cs) w a ^ loopExp expo (Suc j) e mod p"
      if h: "list_all (r1cHolds p (coeffs cs) w) (c1 # new)"
        and r: "varValue (coeffs cs) w res mod p = varValue (coeffs cs) w a ^ e mod p"
      for p w e
    proof -
      from h have h1: "r1cHolds p (coeffs cs) w c1"
        and h3: "list_all (r1cHolds p (coeffs cs1) w) new"
        using 1(2) by simp_all
      have v1: "varValue (coeffs cs) w z1 mod p = varValue (coeffs cs) w a ^ (2 * e) mod p"
        using 1(4) [OF h1] square_cong [OF r] by simp
      from 3(4) [OF h3, of "2 * e"] v1 1(2) False show ?thesis by simp
    qed
    from run cons val 3(2) 1(2) show ?thesis by (metis (no_types, lifting))
  qed
qed

lemma isPrime_divisors:
  assumes "isPrime p" "d dvd p"
  shows "d = 1 \<or> d = p"
proof -
  from assms have p: "2 \<le> p" and nd: "\<forall>d \<in> {2..<p}. \<not> d dvd p"
    by (simp_all add: isPrime_def)
  from assms(2) p have "d \<le> p" by (auto intro: dvd_imp_le)
  moreover from assms(2) p have "d \<noteq> 0"
    by (metis dvd_0_left_iff not_numeral_le_zero)
  ultimately have "d = 1 \<or> d = p \<or> d \<in> {2..<p}" by auto
  with nd assms(2) show ?thesis by blast
qed

lemma isPrime_coprime:
  assumes "isPrime p" "\<not> p dvd n"
  shows "coprime p n"
proof (rule coprimeI)
  fix c assume "c dvd p" "c dvd n"
  with isPrime_divisors [OF assms(1)] assms(2) show "is_unit c" by auto
qed

lemma isPrime_dvd_choose:
  assumes "isPrime p" "0 < k" "k < p"
  shows "p dvd (p choose k)"
proof -
  have "k * (p choose k) = p * ((p - 1) choose (k - 1))"
    using assms(2) by (rule times_binomial_minus1_eq)
  then have "p dvd k * (p choose k)" by simp
  moreover have "coprime p k"
    using assms by (intro isPrime_coprime) (auto dest: dvd_imp_le)
  ultimately show ?thesis
    by (simp add: coprime_dvd_mult_right_iff)
qed

lemma isPrime_freshman:
  assumes "isPrime p"
  shows "(n + 1) ^ p mod p = (n ^ p + 1) mod p"
proof -
  from assms have p: "2 \<le> p" by (simp add: isPrime_def)
  have set: "{..p} = insert 0 (insert p {1..<p})" using p by auto
  have "(n + 1) ^ p = (\<Sum>k\<le>p. (p choose k) * n ^ k)"
    using binomial [of n 1 p] by simp
  also have "\<dots> = 1 + (n ^ p + (\<Sum>k \<in> {1..<p}. (p choose k) * n ^ k))"
    unfolding set using p by (simp add: sum.insert)
  finally have e: "(n + 1) ^ p = (n ^ p + 1) + (\<Sum>k \<in> {1..<p}. (p choose k) * n ^ k)"
    by simp
  have "p dvd (\<Sum>k \<in> {1..<p}. (p choose k) * n ^ k)"
    by (rule dvd_sum) (simp add: isPrime_dvd_choose [OF assms])
  then show ?thesis
    unfolding e by (metis mod_add_self2 dvd_def mod_mult_self2 mult.commute)
qed

lemma fermat_power: "isPrime p \<Longrightarrow> n ^ p mod p = n mod p"
proof (induction n)
  case 0
  then have "0 < p" by (simp add: isPrime_def)
  then have z: "(0::nat) ^ p = 0" by (simp add: power_0_left)
  show ?case unfolding z by simp
next
  case (Suc n)
  have "Suc n ^ p mod p = (n ^ p + 1) mod p"
    using isPrime_freshman [OF Suc.prems, of n] by simp
  also have "\<dots> = (n mod p + 1) mod p"
    using Suc.IH [OF Suc.prems] by (metis mod_add_left_eq)
  also have "\<dots> = Suc n mod p"
    by (simp add: mod_Suc_eq)
  finally show ?case .
qed

lemma fermat_little_nat:
  assumes "isPrime p" "\<not> p dvd n"
  shows "n ^ (p - 1) mod p = 1"
proof -
  from assms(1) have p: "2 \<le> p" by (simp add: isPrime_def)
  from assms(2) have n: "1 \<le> n" by (cases n) auto
  then have ge: "1 \<le> n ^ (p - 1)" by simp
  have split: "n ^ p = n * n ^ (p - 1)"
    using p by (cases p) auto
  have "n \<le> n ^ p" using n p by (metis ge split mult.right_neutral mult_le_mono2)
  then have "p dvd n ^ p - n"
    using fermat_power [OF assms(1), of n] by (simp add: mod_eq_dvd_iff_nat)
  moreover have "n ^ p - n = n * (n ^ (p - 1) - 1)"
    unfolding split by (simp add: right_diff_distrib')
  ultimately have "p dvd n * (n ^ (p - 1) - 1)" by simp
  then have "p dvd n ^ (p - 1) - 1"
    using isPrime_coprime [OF assms] by (simp add: coprime_dvd_mult_right_iff)
  then have "n ^ (p - 1) mod p = 1 mod p"
    using ge mod_eq_dvd_iff_nat [of 1 "n ^ (p - 1)" p] by simp
  with p show ?thesis by simp
qed

lemma fermat_little_int:
  fixes x :: int
  assumes "isPrime p" "x mod int p \<noteq> 0"
  shows "x ^ (p - 1) mod int p = 1"
proof -
  from assms(1) have p: "2 \<le> p" by (simp add: isPrime_def)
  let ?n = "nat (x mod int p)"
  have n: "int ?n = x mod int p" using p by simp
  have "\<not> p dvd ?n"
  proof
    assume "p dvd ?n"
    then have "int p dvd int ?n" by (simp only: int_dvd_int_iff)
    then have "int p dvd x mod int p" by (simp only: n)
    then have "int p dvd x" by (simp add: dvd_mod_iff)
    with assms(2) show False by (simp add: mod_eq_0_iff_dvd)
  qed
  from fermat_little_nat [OF assms(1) this] have "?n ^ (p - 1) mod p = 1" .
  then have "int (?n ^ (p - 1) mod p) = 1" by simp
  then have "(int ?n) ^ (p - 1) mod int p = 1" by (simp add: zmod_int)
  then have "(x mod int p) ^ (p - 1) mod int p = 1" by (simp only: n)
  then show ?thesis by (simp add: power_mod)
qed

lemma zero_power_mod:
  fixes x :: int
  assumes "2 \<le> p" "x mod int p = 0"
  shows "x ^ (p - 1) mod int p = 0"
proof -
  from assms(2) have d: "int p dvd x" by (simp add: mod_eq_0_iff_dvd)
  from assms(1) have "p - 1 \<noteq> 0" by simp
  then have "x dvd x ^ (p - 1)" by (simp add: dvd_power)
  with d have "int p dvd x ^ (p - 1)" by (rule dvd_trans)
  then show ?thesis by (simp add: mod_eq_0_iff_dvd)
qed

lemma loopExp_closed: "loopExp expo j e = e * 2 ^ j + nat (take_bit j (expo div 2))"
proof (induction j arbitrary: e)
  case 0
  show ?case by simp
next
  case (Suc j)
  have t: "take_bit (Suc j) (expo div 2) =
      2 ^ j * of_bool (bit expo (Suc j)) + take_bit j (expo div 2)"
    by (simp only: take_bit_Suc_from_most bit_Suc)
  have "0 \<le> take_bit j (expo div 2)" by simp
  then have "nat (take_bit (Suc j) (expo div 2)) =
      2 ^ j * of_bool (bit expo (Suc j)) + nat (take_bit j (expo div 2))"
    unfolding t by (simp add: nat_add_distrib nat_power_eq)
  then show ?case
    by (simp add: Suc.IH algebra_simps)
qed

lemma bytesLen_bound: "n < 256 ^ bytesLen n"
proof (induction n rule: bytesLen.induct)
  case (1 n)
  show ?case
  proof (cases "n = 0")
    case True
    then show ?thesis by (simp add: bytesLen.simps)
  next
    case False
    with 1 have "n div 256 < 256 ^ bytesLen (n div 256)" by simp
    then have "n < 256 * 256 ^ bytesLen (n div 256)" by simp
    with False show ?thesis by (simp add: bytesLen.simps [of n])
  qed
qed

lemma loopExp_modulus:
  assumes "odd p"
  shows "2 * loopExp (int p) (bytesLen p * 8 - 1) 0 = p - 1"
proof -
  from assms have pos: "0 < p" by (cases p) auto
  then have "bytesLen p \<noteq> 0" by (simp add: bytesLen.simps [of p])
  then obtain m where m: "bytesLen p * 8 = Suc m" by (cases "bytesLen p * 8") auto
  have "p < 256 ^ bytesLen p" by (rule bytesLen_bound)
  also have "(256::nat) ^ bytesLen p = 2 ^ (bytesLen p * 8)"
  proof -
    have "(2::nat) ^ (bytesLen p * 8) = (2 ^ 8) ^ bytesLen p"
      by (simp only: power_mult mult.commute [of "bytesLen p" 8])
    then show ?thesis by simp
  qed
  finally have "p < 2 * 2 ^ m" by (simp add: m)
  then have "int p < 2 * 2 ^ m" by (metis of_nat_less_iff of_nat_mult of_nat_numeral of_nat_power)
  then have "int p div 2 < 2 ^ m" by simp
  then have "take_bit m (int p div 2) = int p div 2"
    by (simp add: take_bit_int_eq_self)
  then have "loopExp (int p) m 0 = nat (int p div 2)"
    by (simp add: loopExp_closed)
  also have "\<dots> = p div 2" by (simp add: nat_div_distrib)
  finally show ?thesis using assms by (simp add: m)
qed

lemma wfCS_coeffs: "coeffs cs' = coeffs cs \<Longrightarrow> wfCS cs' = wfCS cs"
  by (simp add: wfCS_def)

lemma varValue_one: "wfCS cs \<Longrightarrow> varValue (coeffs cs) w getOneVariable = w (Wire One 0)"
  using wfCS_nth(3) [of cs]
  by (simp add: varValue_def cDV_nonempty getOneVariable_def linExpValue_def termValue_def
      CoeffIdOne_def)

lemma varValue_internal:
  "wfCS cs \<Longrightarrow> varValue (coeffs cs) w (internalVariable n) = w (Wire Internal n)"
  using wfCS_nth(3) [of cs]
  by (simp add: varValue_def internalVariable_def cDV_nonempty linExpValue_def termValue_def
      CoeffIdOne_def)

lemma one_minus_value:
  "wfCS cs \<Longrightarrow>
     linExpValue (coeffs cs) w [Pack n CoeffIdMinusOne Internal, Pack 0 CoeffIdOne One] =
       w (Wire One 0) - w (Wire Internal n)"
  using wfCS_nth(3,4) [of cs]
  by (simp add: linExpValue_def termValue_def CoeffIdOne_def CoeffIdMinusOne_def)

lemma IsZero_supported:
  assumes "id' \<in> {BN254, BLS12_381, BLS12_377, BW6_761, BLS24_315, BW6_633}"
  shows "IsZero lib a id' cs =
     thenDo (isZeroLoop (frModulus lib id') a (bytesLen (nat \<bar>frModulus lib id'\<bar>) * 8 - 1)
               getOneVariable) (\<lambda>res'.
     thenDo (Mul (Var res') (Var res') []) (\<lambda>res''.
     Sub (Const 1) (Var res''))) cs"
  using assms by (auto simp: IsZero_def thenDo_def Let_def)

text \<open>
  Claim C5. Over a supported field of odd order \<open>p\<close>, \<open>IsZero(a)\<close> returns a Variable whose
  value, in every witness of the resulting constraint system, is 1 - a^(p-1) modulo \<open>p\<close>:
  the square-and-multiply loop over the bits of \<open>p\<close> from the highest down to bit 1,
  followed by the final squaring, reaches the exponent exactly \<open>p - 1\<close>. For a prime \<open>p\<close> the
  value is therefore 1 when \<open>a\<close> is zero in the field and 0 otherwise.
\<close>

theorem IsZero_is_one_minus_power:
  assumes "id' \<in> {BN254, BLS12_381, BLS12_377, BW6_761, BLS24_315, BW6_633}"
    and "wfCS cs" and "frModulus lib id' = int p" and "odd p"
  shows "\<exists>r cs'. IsZero lib a id' cs = Inr (r, cs')
           \<and> (\<forall>w. satisfies (int p) cs' w \<longrightarrow>
                 linExpValue (coeffs cs') w (linExp r) mod int p =
                   (1 - varValue (coeffs cs') w a ^ (p - 1)) mod int p
                 \<and> (isPrime p \<longrightarrow>
                      linExpValue (coeffs cs') w (linExp r) mod int p =
                        (if varValue (coeffs cs') w a mod int p = 0 then 1 else 0)))"
proof -
  let ?j = "bytesLen p * 8 - 1"
  from isZeroLoop_sem [of "int p" a ?j getOneVariable cs] obtain res1 cs1 new
    where 1: "isZeroLoop (int p) a ?j getOneVariable cs = Inr (res1, cs1)"
      "coeffs cs1 = coeffs cs" "constraints cs1 = constraints cs @ new"
      "\<And>q w e. list_all (r1cHolds q (coeffs cs) w) new \<Longrightarrow>
         varValue (coeffs cs) w getOneVariable mod q = varValue (coeffs cs) w a ^ e mod q \<Longrightarrow>
         varValue (coeffs cs) w res1 mod q =
           varValue (coeffs cs) w a ^ loopExp (int p) ?j e mod q"
    by blast
  let ?k = "nbInternal cs1"
  let ?c = "\<lparr>R1C_L = linExp (completeDanglingVariable res1),
             R1C_R = linExp (completeDanglingVariable res1),
             R1C_O = [Pack ?k CoeffIdOne Internal], Solver = SingleOutput\<rparr>"
  let ?cs2 = "cs1\<lparr>nbInternal := ?k + 1, constraints := constraints cs1 @ [?c]\<rparr>"
  let ?r = "\<lparr>wire = None, linExp = [Pack ?k CoeffIdMinusOne Internal, Pack 0 CoeffIdOne One],
             isBoolean = False\<rparr>"
  have 2: "mul (Var res1) (Var res1) cs1 = Inr (internalVariable ?k, ?cs2)"
    by (simp add: mul_Var_Var internalVariable_def)
  have wf2: "wfCS ?cs2" using assms(2) 1(2) by (simp add: wfCS_def)
  have 3: "Sub (Const 1) (Var (internalVariable ?k)) ?cs2 = Inr (?r, ?cs2)"
    using Sub_one_internal [OF wf2] .
  have run: "IsZero lib a id' cs = Inr (?r, ?cs2)"
    unfolding IsZero_supported [OF assms(1)] assms(3)
    using 1(1) 2 3 by (simp add: thenDo_def Mul_nil)
  have tab: "coeffs ?cs2 = coeffs cs" using 1(2) by simp
  have val: "linExpValue (coeffs ?cs2) w (linExp ?r) mod int p =
          (1 - varValue (coeffs ?cs2) w a ^ (p - 1)) mod int p
        \<and> (isPrime p \<longrightarrow>
             linExpValue (coeffs ?cs2) w (linExp ?r) mod int p =
               (if varValue (coeffs ?cs2) w a mod int p = 0 then 1 else 0))"
    if sat: "satisfies (int p) ?cs2 w" for w
  proof -
    let ?A = "varValue (coeffs cs) w a"
    from sat have one: "w (Wire One 0) = 1"
      and hn: "list_all (r1cHolds (int p) (coeffs cs) w) new"
      and hc: "r1cHolds (int p) (coeffs cs) w ?c"
      by (simp_all add: satisfies_def 1(2,3))
    have "varValue (coeffs cs) w getOneVariable mod int p = ?A ^ 0 mod int p"
      using varValue_one [OF assms(2)] one by simp
    from 1(4) [OF hn this]
    have v1: "varValue (coeffs cs) w res1 mod int p = ?A ^ loopExp (int p) ?j 0 mod int p" .
    have "w (Wire Internal ?k) mod int p =
        (varValue (coeffs cs) w res1 * varValue (coeffs cs) w res1) mod int p"
      using hc wfCS_nth(3) [OF assms(2)]
      by (simp add: r1cHolds_def varValue_def linExpValue_def termValue_def CoeffIdOne_def)
    also have "\<dots> = ?A ^ (2 * loopExp (int p) ?j 0) mod int p"
      using square_cong [OF v1] .
    also have "2 * loopExp (int p) ?j 0 = p - 1"
      using loopExp_modulus [OF assms(4)] .
    finally have z: "w (Wire Internal ?k) mod int p = ?A ^ (p - 1) mod int p" .
    have lv: "linExpValue (coeffs ?cs2) w (linExp ?r) = 1 - w (Wire Internal ?k)"
      using one_minus_value [OF wf2, of w ?k] one by simp
    have "(1 - w (Wire Internal ?k)) mod int p = (1 - ?A ^ (p - 1)) mod int p"
      using z by (rule mod_diff_cong [OF refl])
    then have main: "linExpValue (coeffs ?cs2) w (linExp ?r) mod int p =
        (1 - ?A ^ (p - 1)) mod int p"
      by (simp only: lv)
    have prime: "(1 - ?A ^ (p - 1)) mod int p = (if ?A mod int p = 0 then 1 else 0)"
      if pr: "isPrime p"
    proof (cases "?A mod int p = 0")
      case True
      from pr have p2: "2 \<le> p" by (simp add: isPrime_def)
      have "?A ^ (p - 1) mod int p = 0 mod int p"
        using zero_power_mod [OF p2 True] by simp
      then have "(1 - ?A ^ (p - 1)) mod int p = (1 - 0) mod int p"
        by (rule mod_diff_cong [OF refl])
      with True p2 show ?thesis by simp
    next
      case False
      have "?A ^ (p - 1) mod int p = 1 mod int p"
        using fermat_little_int [OF pr False] isPrime_def pr by simp
      then have "(1 - ?A ^ (p - 1)) mod int p = (1 - 1) mod int p"
        by (rule mod_diff_cong [OF refl])
      with False show ?thesis by simp
    qed
    from main prime show ?thesis by (simp add: 1(2))
  qed
  from run val show ?thesis by blast
qed

lemma IsZero_example:
  "IsZero exampleLib exampleSecret BN254 newConstraintSystem = Inr isZeroExample"
  by code_simp

lemma isZeroWitness_satisfies: "satisfies 3 (snd isZeroExample) isZeroWitness"
  by code_simp

lemma isZeroWitness_input:
  "varValue (coeffs (snd isZeroExample)) isZeroWitness exampleSecret = 2"
  by code_simp

lemma isPrime_3: "isPrime 3"
  by code_simp

theorem IsZero_is_one_minus_power_witness:
  "BN254 \<in> {BN254, BLS12_381, BLS12_377, BW6_761, BLS24_315, BW6_633}
   \<and> wfCS newConstraintSystem \<and> frModulus exampleLib BN254 = int 3 \<and> odd (3::nat)
   \<and> isPrime 3
   \<and> IsZero exampleLib exampleSecret BN254 newConstraintSystem = Inr isZeroExample
   \<and> satisfies (int 3) (snd isZeroExample) isZeroWitness
   \<and> varValue (coeffs (snd isZeroExample)) isZeroWitness exampleSecret = 2
   \<and> linExpValue (coeffs (snd isZeroExample)) isZeroWitness (linExp (fst isZeroExample))
         mod int 3 = (1 - 2 ^ (3 - 1)) mod int 3
   \<and> linExpValue (coeffs (snd isZeroExample)) isZeroWitness (linExp (fst isZeroExample))
         mod int 3 = 0"
proof -
  have mem: "BN254 \<in> {BN254, BLS12_381, BLS12_377, BW6_761, BLS24_315, BW6_633}" by simp
  have wf: "wfCS newConstraintSystem" by (simp add: wfCS_def newConstraintSystem_def)
  have md: "frModulus exampleLib BN254 = int 3" by (simp add: exampleLib_def)
  have od: "odd (3::nat)" by simp
  have sat: "satisfies (int 3) (snd isZeroExample) isZeroWitness"
    using isZeroWitness_satisfies by simp
  from IsZero_is_one_minus_power [OF mem wf md od, of exampleSecret] obtain r cs'
    where run: "IsZero exampleLib exampleSecret BN254 newConstraintSystem = Inr (r, cs')"
      and val: "\<And>w. satisfies (int 3) cs' w \<Longrightarrow>
          linExpValue (coeffs cs') w (linExp r) mod int 3 =
            (1 - varValue (coeffs cs') w exampleSecret ^ (3 - 1)) mod int 3
          \<and> (isPrime 3 \<longrightarrow>
               linExpValue (coeffs cs') w (linExp r) mod int 3 =
                 (if varValue (coeffs cs') w exampleSecret mod int 3 = 0 then 1 else 0))"
    by blast
  from run have eq: "isZeroExample = (r, cs')" by (simp add: IsZero_example)
  have r: "r = fst isZeroExample" unfolding eq by simp
  have cs': "cs' = snd isZeroExample" unfolding eq by simp
  from val [of isZeroWitness] sat isPrime_3 isZeroWitness_input
  have "linExpValue (coeffs (snd isZeroExample)) isZeroWitness (linExp (fst isZeroExample))
         mod int 3 = (1 - 2 ^ (3 - 1)) mod int 3"
    and "linExpValue (coeffs (snd isZeroExample)) isZeroWitness (linExp (fst isZeroExample))
         mod int 3 = 0"
    unfolding r cs' by simp_all
  with mem wf md od isPrime_3 IsZero_example sat isZeroWitness_input show ?thesis
    by blast
qed

subsection \<open>The panic of is-zero\<close>

lemma IsZero_total:
  assumes "id' \<in> {BN254, BLS12_381, BLS12_377, BW6_761, BLS24_315, BW6_633}" and "wfCS cs"
  shows "\<exists>r cs'. IsZero lib a id' cs = Inr (r, cs')"
proof -
  let ?expo = "frModulus lib id'"
  from isZeroLoop_sem [of ?expo a "bytesLen (nat \<bar>?expo\<bar>) * 8 - 1" getOneVariable cs]
  obtain res1 cs1 where 1:
    "isZeroLoop ?expo a (bytesLen (nat \<bar>?expo\<bar>) * 8 - 1) getOneVariable cs = Inr (res1, cs1)"
    "coeffs cs1 = coeffs cs"
    by blast
  let ?k = "nbInternal cs1"
  obtain cs2 where 2: "mul (Var res1) (Var res1) cs1 = Inr (internalVariable ?k, cs2)"
    "coeffs cs2 = coeffs cs1"
    by (simp add: mul_Var_Var internalVariable_def)
  have "wfCS cs2" using assms(2) 1(2) 2(2) by (simp add: wfCS_def)
  from Sub_one_internal [OF this, of ?k] 1(1) 2(1) show ?thesis
    unfolding IsZero_supported [OF assms(1)] by (simp add: thenDo_def Mul_nil)
qed

text \<open>
  Claim C10. For every curve identity other than BN254, BLS12_381, BLS12_377, BW6_761,
  BLS24_315 and BW6_633, \<open>IsZero(a, id)\<close> panics with "not implemented" (it has no
  error result to return); for each of these six identities the switch that selects the
  modulus does not panic: \<open>IsZero\<close> never ends in the "not implemented" panic, and on a
  constraint system whose coefficient table starts with the reserved values it returns.
\<close>

theorem IsZero_unsupported_curve_panics:
  "(id' \<notin> {BN254, BLS12_381, BLS12_377, BW6_761, BLS24_315, BW6_633} \<longrightarrow>
      IsZero lib a id' cs = Inl NotImplemented)
   \<and> (id' \<in> {BN254, BLS12_381, BLS12_377, BW6_761, BLS24_315, BW6_633} \<longrightarrow>
      IsZero lib a id' cs \<noteq> Inl NotImplemented
      \<and> (wfCS cs \<longrightarrow> (\<exists>r cs'. IsZero lib a id' cs = Inr (r, cs'))))"
proof (intro conjI impI)
  assume "id' \<notin> {BN254, BLS12_381, BLS12_377, BW6_761, BLS24_315, BW6_633}"
  then show "IsZero lib a id' cs = Inl NotImplemented"
    by (cases id') (simp_all add: IsZero_def thenDo_def)
next
  assume sup: "id' \<in> {BN254, BLS12_381, BLS12_377, BW6_761, BLS24_315, BW6_633}"
  have "IsZero lib a id' cs = Inl e \<Longrightarrow> e = IndexOutOfRange" for e
    using sup IsZero_after_switch [of "frModulus lib id'" a]
    unfolding IsZero_def indexPanicsOnly_def
    by (auto simp: thenDo_step [of "ret x" for x, simplified])
  then show "IsZero lib a id' cs \<noteq> Inl NotImplemented"
    by fastforce
next
  assume "id' \<in> {BN254, BLS12_381, BLS12_377, BW6_761, BLS24_315, BW6_633}" and "wfCS cs"
  then show "\<exists>r cs'. IsZero lib a id' cs = Inr (r, cs')"
    by (rule IsZero_total)
qed

theorem IsZero_unsupported_curve_panics_witness:
  "UNKNOWN \<notin> {BN254, BLS12_381, BLS12_377, BW6_761, BLS24_315, BW6_633}
   \<and> IsZero exampleLib exampleSecret UNKNOWN newConstraintSystem = Inl NotImplemented
   \<and> OtherID 9 \<notin> {BN254, BLS12_381, BLS12_377, BW6_761, BLS24_315, BW6_633}
   \<and> IsZero exampleLib exampleSecret (OtherID 9) newConstraintSystem = Inl NotImplemented
   \<and> BW6_633 \<in> {BN254, BLS12_381, BLS12_377, BW6_761, BLS24_315, BW6_633}
   \<and> IsZero exampleLib exampleSecret BW6_633 newConstraintSystem \<noteq> Inl NotImplemented
   \<and> wfCS newConstraintSystem
   \<and> (\<exists>r cs'. IsZero exampleLib exampleSecret BW6_633 newConstraintSystem = Inr (r, cs'))"
proof -
  have wf: "wfCS newConstraintSystem" by (simp add: wfCS_def newConstraintSystem_def)
  from IsZero_unsupported_curve_panics [of UNKNOWN exampleLib exampleSecret newConstraintSystem]
    IsZero_unsupported_curve_panics [of "OtherID 9" exampleLib exampleSecret newConstraintSystem]
    IsZero_unsupported_curve_panics [of BW6_633 exampleLib exampleSecret newConstraintSystem]
    wf
  show ?thesis by simp
qed

subsection \<open>The reserved slots are an invariant of the builder\<close>

lemma wfCS_new: "wfCS newConstraintSystem"
  by (simp add: wfCS_def newConstraintSystem_def)

lemma unpackAll_state: "unpackAll l cs = Inr (ps, cs') \<Longrightarrow> cs' = cs"
  by (induction l arbitrary: ps) (auto simp: thenDo_Inr coeffsAt_Inr)

lemma makeTerms_grow: "makeTerms ps cs = Inr (ts, cs') \<Longrightarrow> coeffsGrow cs cs'"
proof (induction ps arbitrary: cs ts)
  case Nil
  then show ?case by simp
next
  case (Cons p ps)
  obtain w c where p: "p = (w, c)" by (cases p)
  from Cons.prems p obtain t cs1 ts'
    where "makeTerm w c cs = Inr (t, cs1)" "makeTerms ps cs1 = Inr (ts', cs')"
    by (auto simp: thenDo_Inr)
  then show ?case
    using makeTerm_grow Cons.IH coeffsGrow_trans by blast
qed

lemma reduce_grow: "reduce l cs = Inr (l', cs') \<Longrightarrow> coeffsGrow cs cs'"
  by (auto simp: reduce_def thenDo_Inr dest!: unpackAll_state makeTerms_grow)

lemma negateLinExp_grow: "negateLinExp l cs = Inr (l', cs') \<Longrightarrow> coeffsGrow cs cs'"
  by (simp add: negateLinExp_mulConstantTerms mulConstantTerms_grow)

lemma addOperand_grow: "addOperand acc i cs = Inr (l, cs') \<Longrightarrow> coeffsGrow cs cs'"
  by (cases i) (auto simp: thenDo_Inr simp del: Constant.simps dest: Constant_grow)

lemma Add_grow: "Add i1 i2 [] cs = Inr (r, cs') \<Longrightarrow> coeffsGrow cs cs'"
  by (auto simp: Add_def thenDo_Inr dest!: addOperand_grow reduce_grow intro: coeffsGrow_trans)

lemma Sub_grow: "Sub i1 i2 cs = Inr (r, cs') \<Longrightarrow> coeffsGrow cs cs'"
  by (cases i1; cases i2)
     (auto simp: Sub_def thenDo_Inr simp del: Constant.simps
       dest!: Constant_grow negateLinExp_grow reduce_grow intro: coeffsGrow_trans)

lemma Mul_wfCS: "wfCS cs \<Longrightarrow> Mul i1 i2 [] cs = Inr (r, cs') \<Longrightarrow> wfCS cs'"
proof (cases i1; cases i2)
  fix x y assume "wfCS cs" "Mul i1 i2 [] cs = Inr (r, cs')" "i1 = Var x" "i2 = Var y"
  then show ?thesis by (auto simp: Mul_nil mul_Var_Var)
next
  fix x k assume "wfCS cs" "Mul i1 i2 [] cs = Inr (r, cs')" "i1 = Var x" "i2 = Const k"
  then show ?thesis by (auto simp: Mul_nil dest!: mulConstant_grow intro: wfCS_grow)
next
  fix x k assume "wfCS cs" "Mul i1 i2 [] cs = Inr (r, cs')" "i1 = Const k" "i2 = Var x"
  then show ?thesis by (auto simp: Mul_nil dest!: mulConstant_grow intro: wfCS_grow)
next
  fix k1 k2 assume "wfCS cs" "Mul i1 i2 [] cs = Inr (r, cs')" "i1 = Const k1" "i2 = Const k2"
  then show ?thesis
    using Constant_grow [of "Const (k1 * k2)" cs r cs'] by (auto simp: Mul_nil intro: wfCS_grow)
qed

lemma Add_wfCS: "wfCS cs \<Longrightarrow> Add i1 i2 [] cs = Inr (r, cs') \<Longrightarrow> wfCS cs'"
  using Add_grow wfCS_grow by blast

lemma Sub_wfCS: "wfCS cs \<Longrightarrow> Sub i1 i2 cs = Inr (r, cs') \<Longrightarrow> wfCS cs'"
  using Sub_grow wfCS_grow by blast

end
